theory Spec2Isabelle
  imports Complex_Main "HOL-Library.Sublist"
begin

section \<open>Text primitives\<close>

text \<open>
  The monitor of \<^verbatim>\<open>tools/fluffos_build_monitor.py\<close> works on unstructured build
  output. Text is modelled as \<^typ>\<open>string\<close> and read as ASCII: the case folding of
  \<^verbatim>\<open>str.lower\<close> and of \<^verbatim>\<open>re.IGNORECASE\<close> acts on the letters A to Z, the class
  \<^verbatim>\<open>\d\<close> is 0 to 9, and white space (\<^verbatim>\<open>\s\<close>, \<^verbatim>\<open>str.strip\<close>) is the ASCII white
  space of Python's \<^verbatim>\<open>str\<close> type: the code points 9 to 13, 28 to 31 and 32.
\<close>

definition newline :: char where
  "newline = char_of (10::nat)"

definition space_chars :: "char list" where
  "space_chars = map char_of [9::nat, 10, 11, 12, 13, 28, 29, 30, 31, 32]"

definition is_space :: "char \<Rightarrow> bool" where
  "is_space c = (c \<in> set space_chars)"

definition is_digit :: "char \<Rightarrow> bool" where
  "is_digit c = (c \<in> set ''0123456789'')"

definition lower_char :: "char \<Rightarrow> char" where
  "lower_char c =
     (case map_of (zip ''ABCDEFGHIJKLMNOPQRSTUVWXYZ'' ''abcdefghijklmnopqrstuvwxyz'') c of
        Some l \<Rightarrow> l
      | None \<Rightarrow> c)"

text \<open>\<^verbatim>\<open>s.lower()\<close>\<close>

definition lower :: "string \<Rightarrow> string" where
  "lower s = map lower_char s"

text \<open>\<^verbatim>\<open>needle in hay\<close> on strings: \<open>needle\<close> occurs as a contiguous substring.\<close>

fun contains :: "string \<Rightarrow> string \<Rightarrow> bool" where
  "contains needle [] = (needle = [])"
| "contains needle (c # cs) = (prefix needle (c # cs) \<or> contains needle cs)"

text \<open>\<^verbatim>\<open>s.strip()\<close>\<close>

definition strip :: "string \<Rightarrow> string" where
  "strip s = rev (dropWhile is_space (rev (dropWhile is_space s)))"

text \<open>\<^verbatim>\<open>s.split('\n')\<close>: always at least one piece; the pieces hold no newline.\<close>

fun split_nl :: "string \<Rightarrow> string list" where
  "split_nl [] = [[]]"
| "split_nl (c # cs) =
     (if c = newline then [] # split_nl cs
      else (case split_nl cs of
              l # ls \<Rightarrow> (c # l) # ls
            | [] \<Rightarrow> [[c]]))"

text \<open>\<^verbatim>\<open>int(p)\<close> on a string of decimal digits.\<close>

definition digit_val :: "char \<Rightarrow> int" where
  "digit_val c =
     (case map_of (zip ''0123456789'' [0, 1, 2, 3, 4, 5, 6, 7, 8, 9]) c of
        Some v \<Rightarrow> v
      | None \<Rightarrow> 0)"

definition int_of_digits :: "string \<Rightarrow> int" where
  "int_of_digits ds = foldl (\<lambda>a d. 10 * a + digit_val d) 0 ds"

section \<open>The regular expressions of the monitor\<close>

text \<open>
  Every pattern the monitor passes to \<^verbatim>\<open>re.search\<close> is a sequence of literal text,
  \<^verbatim>\<open>.*\<close>, \<^verbatim>\<open>\s*\<close> and \<^verbatim>\<open>\d+\<close>. A pattern is a list of such items; literals are
  compared case-insensitively, as all searches of the source pass \<^verbatim>\<open>re.IGNORECASE\<close>,
  and \<^verbatim>\<open>.\<close> matches every character but the newline.
\<close>

datatype rx_item = Lit string | AnyStar | SpaceStar | DigitPlus

fun lit_here :: "string \<Rightarrow> string \<Rightarrow> bool" where
  "lit_here [] s = True"
| "lit_here (p # ps) [] = False"
| "lit_here (p # ps) (c # cs) = (lower_char p = lower_char c \<and> lit_here ps cs)"

text \<open>\<open>match_here p s\<close>: some prefix of \<open>s\<close> matches the whole pattern \<open>p\<close>.\<close>

fun match_here :: "rx_item list \<Rightarrow> string \<Rightarrow> bool" where
  "match_here [] s = True"
| "match_here (Lit l # p) s = (lit_here l s \<and> match_here p (drop (length l) s))"
| "match_here (AnyStar # p) s =
     (match_here p s \<or>
      (case s of [] \<Rightarrow> False | c # cs \<Rightarrow> c \<noteq> newline \<and> match_here (AnyStar # p) cs))"
| "match_here (SpaceStar # p) s =
     (match_here p s \<or>
      (case s of [] \<Rightarrow> False | c # cs \<Rightarrow> is_space c \<and> match_here (SpaceStar # p) cs))"
| "match_here (DigitPlus # p) s =
     (case s of [] \<Rightarrow> False
      | c # cs \<Rightarrow> is_digit c \<and> (match_here p cs \<or> match_here (DigitPlus # p) cs))"

text \<open>\<^verbatim>\<open>re.search(p, s, re.IGNORECASE)\<close> as a truth value: a match at some position.\<close>

fun re_search :: "rx_item list \<Rightarrow> string \<Rightarrow> bool" where
  "re_search p [] = match_here p []"
| "re_search p (c # cs) = (match_here p (c # cs) \<or> re_search p cs)"

text \<open>
  \<^verbatim>\<open>re.findall(r"\[\s*(\d+)%\]", output)\<close>: the captured digit groups of the
  non-overlapping matches, scanned from the left. The three classes of the pattern
  (white space, digits, the percent sign) are disjoint, so the greedy reading of
  \<^verbatim>\<open>\s*\<close> and \<^verbatim>\<open>\d+\<close> is the only one that can match at a position.
  \<open>match_progress_at s\<close> is the match attempt at the head of \<open>s\<close>: the captured
  digits and the text after the match.
\<close>

definition match_progress_at :: "string \<Rightarrow> (string \<times> string) option" where
  "match_progress_at s =
     (case s of
        [] \<Rightarrow> None
      | c # r \<Rightarrow>
          if c = CHR ''[''
          then (let r1 = dropWhile is_space r;
                    ds = takeWhile is_digit r1;
                    r2 = dropWhile is_digit r1
                in if ds \<noteq> [] \<and> prefix ''%]'' r2 then Some (ds, drop 2 r2) else None)
          else None)"

lemma match_progress_at_shorter:
  "match_progress_at s = Some (ds, rest) \<Longrightarrow> length rest < length s"
proof -
  assume m: "match_progress_at s = Some (ds, rest)"
  then obtain c r where s: "s = c # r"
    by (cases s) (auto simp: match_progress_at_def)
  from m s have "rest = drop 2 (dropWhile is_digit (dropWhile is_space r))"
    by (auto simp: match_progress_at_def Let_def split: if_splits)
  moreover have "length (dropWhile is_digit (dropWhile is_space r)) \<le> length r"
    by (meson length_dropWhile_le order_trans)
  ultimately show ?thesis using s by simp
qed

function findall_progress :: "string \<Rightarrow> string list" where
  "findall_progress [] = []"
| "findall_progress (c # cs) =
     (case match_progress_at (c # cs) of
        Some (ds, rest) \<Rightarrow> ds # findall_progress rest
      | None \<Rightarrow> findall_progress cs)"
  by pat_completeness auto
termination
  by (relation "measure length") (auto dest: match_progress_at_shorter)

section \<open>Data model\<close>

datatype BuildState =
  STARTING | CONFIGURING | COMPILING_CORE | COMPILING_PACKAGES | LINKING
  | COMPLETED | FAILED | TIMEOUT

text \<open>
  The entries of \<^verbatim>\<open>self.errors\<close> are dictionaries with the keys \<^verbatim>\<open>message\<close>,
  \<^verbatim>\<open>package_related\<close> and \<^verbatim>\<open>critical\<close>; the entry appended for a failed fetch has
  no \<^verbatim>\<open>package_related\<close> key (\<open>None\<close> here). The entries of \<^verbatim>\<open>self.warnings\<close>
  have the keys \<^verbatim>\<open>message\<close> and \<^verbatim>\<open>package_related\<close>.
\<close>

record error_entry =
  message :: string
  package_related :: "bool option"
  critical :: bool

record warning_entry =
  w_message :: string
  w_package_related :: bool

text \<open>
  \<^verbatim>\<open>BuildStatus\<close>. The two descriptive fields \<^verbatim>\<open>current_task\<close> and
  \<^verbatim>\<open>last_activity\<close> are text for the reader of the report and enter no decision;
  they are left out of the model.
\<close>

record BuildStatus =
  st_state :: BuildState
  progress :: int
  st_packages_built :: "string list"
  packages_total :: "string list"
  st_errors :: "error_entry list"
  st_warnings :: "warning_entry list"
  duration :: real

text \<open>
  The fields of \<^verbatim>\<open>FluffOSBuildMonitor\<close> that the checks read or write. Clock
  readings (\<^verbatim>\<open>time.time()\<close>) are real numbers.
\<close>

record monitor =
  focus_packages :: "string list"
  max_duration :: int
  start_time :: real
  state :: BuildState
  packages_built :: "string list"
  errors :: "error_entry list"
  warnings :: "warning_entry list"
  current_interval_index :: nat
  consecutive_no_activity :: nat
  current_progress :: int

definition wait_intervals :: "int list" where
  "wait_intervals = [30, 60, 120, 240, 480, 900]"

definition cmake_start :: int where "cmake_start = 10"
definition cmake_done :: int where "cmake_done = 20"
definition core_start :: int where "core_start = 30"
definition packages_start :: int where "packages_start = 50"
definition linking_start :: int where "linking_start = 80"
definition build_complete :: int where "build_complete = 100"

text \<open>
  \<^verbatim>\<open>__init__\<close>: \<^verbatim>\<open>focus_packages or ["http", "rest", "openapi"]\<close> takes the
  default for \<^verbatim>\<open>None\<close> and for the empty list alike.
\<close>

definition init_monitor :: "string list option \<Rightarrow> int \<Rightarrow> real \<Rightarrow> monitor" where
  "init_monitor pkgs maxd now =
     \<lparr> focus_packages =
         (case pkgs of
            None \<Rightarrow> [''http'', ''rest'', ''openapi'']
          | Some ps \<Rightarrow> if ps = [] then [''http'', ''rest'', ''openapi''] else ps),
       max_duration = maxd,
       start_time = now,
       state = STARTING,
       packages_built = [],
       errors = [],
       warnings = [],
       current_interval_index = 0,
       consecutive_no_activity = 0,
       current_progress = 0 \<rparr>"

section \<open>Fetching the output of the build\<close>

text \<open>
  \<^verbatim>\<open>_run_bash_output\<close> runs a subprocess. What the subprocess did is the input of the
  model: it ran and returned an exit code with its two output streams, it ran into the
  10 second limit (\<^verbatim>\<open>subprocess.TimeoutExpired\<close>), or another exception was raised,
  of which \<^verbatim>\<open>str(e)\<close> is kept. The result is the triple of the source: standard
  output, error text, and the flag that the build has finished.
\<close>

datatype fetch = Ran int string string | TimeoutExpired | OtherException string

definition run_bash_output :: "fetch \<Rightarrow> string \<times> string \<times> bool" where
  "run_bash_output f =
     (case f of
        Ran returncode out err \<Rightarrow>
          if returncode = 0 then
            (if contains ''status:completed'' (lower out) then (out, [], True)
             else if contains ''status:running'' (lower out) then (out, [], False)
             else (out, err, False))
          else ([], ''Failed to get bash output: '' @ err, False)
      | TimeoutExpired \<Rightarrow> ([], ''Timeout getting bash output'', False)
      | OtherException msg \<Rightarrow> ([], ''Error getting bash output: '' @ msg, False))"

section \<open>The text classifier\<close>

definition activity_indicators :: "rx_item list list" where
  "activity_indicators =
     [ [Lit ''['', SpaceStar, DigitPlus, Lit ''%]''],
       [Lit ''Building'', AnyStar, Lit ''.o''],
       [Lit ''Linking'', AnyStar, Lit ''executable''],
       [Lit ''Built target''],
       [Lit ''make'', AnyStar, Lit '':''],
       [Lit ''cmake''] ]"

definition detect_build_activity :: "string \<Rightarrow> bool" where
  "detect_build_activity output = list_ex (\<lambda>indicator. re_search indicator output) activity_indicators"

text \<open>\<^verbatim>\<open>max(...)\<close> of a list; the source calls it on non-empty lists only.\<close>

fun max_list :: "int list \<Rightarrow> int" where
  "max_list [] = 0"
| "max_list (x # xs) = fold max xs x"

definition extract_progress :: "monitor \<Rightarrow> string \<Rightarrow> int" where
  "extract_progress s output =
     (let progress_matches = findall_progress output in
      if progress_matches \<noteq> [] then max_list (map int_of_digits progress_matches)
      else if contains ''cmake'' (lower output) \<and> contains ''configuring'' (lower output)
        then max (current_progress s) cmake_start
      else if contains ''generating done'' (lower output)
        then max (current_progress s) cmake_done
      else if contains ''building cxx object'' (lower output)
        then max (current_progress s) core_start
      else if list_ex (\<lambda>pkg. contains (''package_'' @ pkg) (lower output)) (focus_packages s)
        then max (current_progress s) packages_start
      else if contains ''linking'' (lower output) \<and> contains ''executable'' (lower output)
        then max (current_progress s) linking_start
      else if contains ''built target'' (lower output)
              \<and> (contains ''driver'' (lower output) \<or> contains ''100%'' output)
        then build_complete
      else current_progress s)"

text \<open>
  \<^verbatim>\<open>_extract_package_completions\<close>. The source builds the pattern
  \<^verbatim>\<open>rf"Built target package_{package}"\<close> from the package name; names are taken to be
  plain words (letters, digits, underscore), as the defaults are, so that the pattern
  is the literal text. One round of the loop over \<^verbatim>\<open>self.focus_packages\<close> is
  \<open>package_step\<close>, on the pair of \<^verbatim>\<open>newly_built\<close> and \<^verbatim>\<open>self.packages_built\<close>.
\<close>

definition package_step ::
  "string \<Rightarrow> string list \<times> string list \<Rightarrow> string \<Rightarrow> string list \<times> string list" where
  "package_step output acc package =
     (case acc of (newly_built, built) \<Rightarrow>
        if re_search [Lit (''Built target package_'' @ package)] output
        then (if package \<notin> set built
              then (newly_built @ [package], built @ [package])
              else (newly_built, built))
        else (newly_built, built))"

definition extract_package_completions :: "monitor \<Rightarrow> string \<Rightarrow> string list \<times> monitor" where
  "extract_package_completions s output =
     (case foldl (package_step output) ([], packages_built s) (focus_packages s) of
        (newly_built, built) \<Rightarrow> (newly_built, s\<lparr>packages_built := built\<rparr>))"

definition critical_error_patterns :: "rx_item list list" where
  "critical_error_patterns =
     [ [Lit ''error:''],
       [Lit ''fatal error:''],
       [Lit ''compilation failed''],
       [Lit ''build failed''],
       [Lit ''make'', AnyStar, Lit ''error''],
       [Lit ''cmake'', AnyStar, Lit ''error''] ]"

definition noise_patterns :: "rx_item list list" where
  "noise_patterns =
     [ [Lit ''warning'', AnyStar, Lit ''third'', AnyStar, Lit ''party''],
       [Lit ''warning'', AnyStar, Lit ''libwebsockets''],
       [Lit ''warning'', AnyStar, Lit ''libevent''],
       [Lit ''warning'', AnyStar, Lit ''crypt''],
       [Lit ''note: unrecognized command-line option''],
       [Lit ''warning'', AnyStar, Lit ''stringop-overflow''],
       [Lit ''warning'', AnyStar, Lit ''deprecated''] ]"

definition is_noise :: "string \<Rightarrow> bool" where
  "is_noise line = list_ex (\<lambda>pattern. re_search pattern line) noise_patterns"

definition is_error :: "string \<Rightarrow> bool" where
  "is_error line = list_ex (\<lambda>pattern. re_search pattern line) critical_error_patterns"

definition is_package_related :: "monitor \<Rightarrow> string \<Rightarrow> bool" where
  "is_package_related s line =
     list_ex (\<lambda>pattern. contains pattern line) (map (\<lambda>pkg. ''packages/'' @ pkg) (focus_packages s))"

definition is_warning :: "string \<Rightarrow> bool" where
  "is_warning line = contains ''warning:'' (lower line)"

text \<open>
  One round of the loop of \<^verbatim>\<open>_filter_errors_and_warnings\<close> over the lines, on the
  pair of \<^verbatim>\<open>new_errors\<close> and \<^verbatim>\<open>new_warnings\<close>. The membership tests read
  \<^verbatim>\<open>self.errors\<close> and \<^verbatim>\<open>self.warnings\<close>, which the loop does not change.
\<close>

definition filter_step ::
  "monitor \<Rightarrow> error_entry list \<times> warning_entry list \<Rightarrow> string
     \<Rightarrow> error_entry list \<times> warning_entry list" where
  "filter_step s acc raw =
     (case acc of (new_errors, new_warnings) \<Rightarrow>
        let line = strip raw in
        if line = [] then (new_errors, new_warnings)
        else if is_noise line then (new_errors, new_warnings)
        else if is_error line \<or> (is_package_related s line \<and> is_warning line) then
          (if line \<notin> set (map message (errors s))
           then (new_errors @ [\<lparr> message = line,
                                   package_related = Some (is_package_related s line),
                                   critical = is_error line \<rparr>], new_warnings)
           else (new_errors, new_warnings))
        else if is_warning line \<and> is_package_related s line then
          (if line \<notin> set (map w_message (warnings s))
           then (new_errors, new_warnings @ [\<lparr> w_message = line,
                                   w_package_related = is_package_related s line \<rparr>])
           else (new_errors, new_warnings))
        else (new_errors, new_warnings))"

definition filter_errors_and_warnings ::
  "monitor \<Rightarrow> string \<Rightarrow> error_entry list \<times> warning_entry list" where
  "filter_errors_and_warnings s output = foldl (filter_step s) ([], []) (split_nl output)"

section \<open>The progress state machine\<close>

definition update_build_state :: "monitor \<Rightarrow> string \<Rightarrow> bool \<Rightarrow> BuildState" where
  "update_build_state s output completed =
     (if completed then
        (if contains ''built target driver'' (lower output) \<or> current_progress s \<ge> 100
         then COMPLETED
         else if errors s \<noteq> [] then FAILED
         else COMPLETED)
      else if list_ex critical (errors s) then FAILED
      else if contains ''cmake'' (lower output) \<and> current_progress s < 30 then CONFIGURING
      else if current_progress s < 50 then COMPILING_CORE
      else if current_progress s < 80 then COMPILING_PACKAGES
      else if current_progress s < 100 then LINKING
      else COMPLETED)"

definition snapshot :: "monitor \<Rightarrow> real \<Rightarrow> BuildStatus" where
  "snapshot s d =
     \<lparr> st_state = state s,
       progress = current_progress s,
       st_packages_built = packages_built s,
       packages_total = focus_packages s,
       st_errors = errors s,
       st_warnings = warnings s,
       duration = d \<rparr>"

text \<open>
  The parts of \<^verbatim>\<open>check_build_status\<close> after the fetch, in the order of the source:
  the error text of the fetch, the activity counters, the progress, the completed
  packages, the new errors and warnings, the state.
\<close>

definition record_fetch_error :: "monitor \<Rightarrow> string \<Rightarrow> monitor" where
  "record_fetch_error s stderr =
     (if stderr \<noteq> [] \<and> contains ''error'' (lower stderr)
      then s\<lparr> errors := errors s @ [\<lparr> message = stderr, package_related = None, critical = True \<rparr>],
              state := FAILED \<rparr>
      else s)"

definition note_activity :: "monitor \<Rightarrow> bool \<Rightarrow> monitor" where
  "note_activity s has_activity =
     (if has_activity
      then s\<lparr> consecutive_no_activity := 0, current_interval_index := 0 \<rparr>
      else s\<lparr> consecutive_no_activity := consecutive_no_activity s + 1 \<rparr>)"

definition update_progress :: "monitor \<Rightarrow> string \<Rightarrow> monitor" where
  "update_progress s output =
     (let new_progress = extract_progress s output in
      if new_progress > current_progress s then s\<lparr> current_progress := new_progress \<rparr> else s)"

definition analyse :: "monitor \<Rightarrow> string \<times> string \<times> bool \<Rightarrow> monitor" where
  "analyse s fetched =
     (case fetched of (stdout, stderr, completed) \<Rightarrow>
        let s1 = record_fetch_error s stderr;
            s2 = note_activity s1 (detect_build_activity stdout);
            s3 = update_progress s2 stdout;
            s4 = snd (extract_package_completions s3 stdout);
            new = filter_errors_and_warnings s4 stdout;
            s5 = s4\<lparr> errors := errors s4 @ fst new, warnings := warnings s4 @ snd new \<rparr>
        in s5\<lparr> state := update_build_state s5 stdout completed \<rparr>)"

text \<open>
  \<^verbatim>\<open>check_build_status\<close>, on the clock reading and on what the subprocess does when
  it is run; the branch of the timeout returns before the subprocess is run and does
  not read it. The result is the returned status and the monitor after the call.
\<close>

definition timed_out :: "monitor \<Rightarrow> real \<Rightarrow> bool" where
  "timed_out s current_time = (current_time - start_time s > real_of_int (max_duration s))"

definition check_build_status :: "monitor \<Rightarrow> real \<Rightarrow> fetch \<Rightarrow> BuildStatus \<times> monitor" where
  "check_build_status s current_time f =
     (if timed_out s current_time
      then (snapshot (s\<lparr> state := TIMEOUT \<rparr>) (current_time - start_time s), s\<lparr> state := TIMEOUT \<rparr>)
      else (snapshot (analyse s (run_bash_output f)) (current_time - start_time s),
            analyse s (run_bash_output f)))"

section \<open>The backoff scheduler\<close>

text \<open>
  \<^verbatim>\<open>get_next_wait_interval\<close>: the interval and the monitor after the call. Reading
  \<^verbatim>\<open>self.wait_intervals\<close> beyond its end raises \<^verbatim>\<open>IndexError\<close>, which is \<open>None\<close>.
\<close>

definition get_next_wait_interval :: "monitor \<Rightarrow> int option \<times> monitor" where
  "get_next_wait_interval s =
     (let s' = (if consecutive_no_activity s > 2
                then s\<lparr> current_interval_index :=
                          min (current_interval_index s + 1) (length wait_intervals - 1) \<rparr>
                else s)
      in (if current_interval_index s' < length wait_intervals
          then Some (wait_intervals ! current_interval_index s')
          else None, s'))"

section \<open>Sessions\<close>

text \<open>
  A monitoring session is a sequence of calls on one monitor: checks of the build
  status, and requests for the next wait interval between them.
\<close>

datatype call = Check real fetch | NextWait

fun step :: "monitor \<Rightarrow> call \<Rightarrow> monitor" where
  "step s (Check current_time f) = snd (check_build_status s current_time f)"
| "step s NextWait = snd (get_next_wait_interval s)"

definition run :: "monitor \<Rightarrow> call list \<Rightarrow> monitor" where
  "run s cs = foldl step s cs"

text \<open>The statuses that the checks of a session return, in order.\<close>

fun statuses :: "monitor \<Rightarrow> call list \<Rightarrow> BuildStatus list" where
  "statuses s [] = []"
| "statuses s (Check current_time f # cs) =
     fst (check_build_status s current_time f) # statuses (step s (Check current_time f)) cs"
| "statuses s (NextWait # cs) = statuses (step s NextWait) cs"

section \<open>What each part of a check changes\<close>

lemma extract_progress_cong:
  assumes "current_progress a = current_progress b" and "focus_packages a = focus_packages b"
  shows "extract_progress a out = extract_progress b out"
  unfolding extract_progress_def assms by (rule refl)

lemma filter_step_cong:
  assumes "errors a = errors b" and "warnings a = warnings b"
    and "focus_packages a = focus_packages b"
  shows "filter_step a = filter_step b"
  unfolding filter_step_def is_package_related_def assms by (rule refl)

lemma filter_errors_and_warnings_cong:
  assumes "errors a = errors b" and "warnings a = warnings b"
    and "focus_packages a = focus_packages b"
  shows "filter_errors_and_warnings a out = filter_errors_and_warnings b out"
  unfolding filter_errors_and_warnings_def filter_step_cong [OF assms] by (rule refl)

lemma record_fetch_error_fields [simp]:
  "current_progress (record_fetch_error s e) = current_progress s"
  "focus_packages (record_fetch_error s e) = focus_packages s"
  "packages_built (record_fetch_error s e) = packages_built s"
  "warnings (record_fetch_error s e) = warnings s"
  "max_duration (record_fetch_error s e) = max_duration s"
  "start_time (record_fetch_error s e) = start_time s"
  "current_interval_index (record_fetch_error s e) = current_interval_index s"
  "consecutive_no_activity (record_fetch_error s e) = consecutive_no_activity s"
  by (simp_all add: record_fetch_error_def)

lemma note_activity_fields [simp]:
  "current_progress (note_activity s a) = current_progress s"
  "focus_packages (note_activity s a) = focus_packages s"
  "packages_built (note_activity s a) = packages_built s"
  "warnings (note_activity s a) = warnings s"
  "errors (note_activity s a) = errors s"
  "max_duration (note_activity s a) = max_duration s"
  "start_time (note_activity s a) = start_time s"
  by (simp_all add: note_activity_def)

lemma update_progress_fields [simp]:
  "focus_packages (update_progress s out) = focus_packages s"
  "packages_built (update_progress s out) = packages_built s"
  "warnings (update_progress s out) = warnings s"
  "errors (update_progress s out) = errors s"
  "max_duration (update_progress s out) = max_duration s"
  "start_time (update_progress s out) = start_time s"
  "current_interval_index (update_progress s out) = current_interval_index s"
  "consecutive_no_activity (update_progress s out) = consecutive_no_activity s"
  by (simp_all add: update_progress_def Let_def)

lemma extract_package_completions_fields [simp]:
  "focus_packages (snd (extract_package_completions s out)) = focus_packages s"
  "current_progress (snd (extract_package_completions s out)) = current_progress s"
  "warnings (snd (extract_package_completions s out)) = warnings s"
  "errors (snd (extract_package_completions s out)) = errors s"
  "max_duration (snd (extract_package_completions s out)) = max_duration s"
  "start_time (snd (extract_package_completions s out)) = start_time s"
  "current_interval_index (snd (extract_package_completions s out)) = current_interval_index s"
  "consecutive_no_activity (snd (extract_package_completions s out)) = consecutive_no_activity s"
  by (simp_all add: extract_package_completions_def split: prod.splits)

lemma get_next_wait_interval_fields [simp]:
  "focus_packages (snd (get_next_wait_interval s)) = focus_packages s"
  "current_progress (snd (get_next_wait_interval s)) = current_progress s"
  "packages_built (snd (get_next_wait_interval s)) = packages_built s"
  "warnings (snd (get_next_wait_interval s)) = warnings s"
  "errors (snd (get_next_wait_interval s)) = errors s"
  "max_duration (snd (get_next_wait_interval s)) = max_duration s"
  "start_time (snd (get_next_wait_interval s)) = start_time s"
  "consecutive_no_activity (snd (get_next_wait_interval s)) = consecutive_no_activity s"
  "state (snd (get_next_wait_interval s)) = state s"
  by (simp_all add: get_next_wait_interval_def Let_def)

lemma analyse_current_progress:
  "current_progress (analyse s (out, err, c)) =
     (if extract_progress s out > current_progress s then extract_progress s out
      else current_progress s)"
proof -
  have "extract_progress (note_activity (record_fetch_error s err) (detect_build_activity out)) out
        = extract_progress s out"
    by (rule extract_progress_cong) simp_all
  then show ?thesis
    by (simp add: analyse_def Let_def update_progress_def)
qed

lemma analyse_errors:
  "errors (analyse s (out, err, c)) =
     errors (record_fetch_error s err) @ fst (filter_errors_and_warnings (record_fetch_error s err) out)"
proof -
  let ?s1 = "record_fetch_error s err"
  let ?s4 = "snd (extract_package_completions
                (update_progress (note_activity ?s1 (detect_build_activity out)) out) out)"
  have "filter_errors_and_warnings ?s4 out = filter_errors_and_warnings ?s1 out"
    by (rule filter_errors_and_warnings_cong) simp_all
  then show ?thesis
    by (simp add: analyse_def Let_def)
qed

lemma analyse_warnings:
  "warnings (analyse s (out, err, c)) =
     warnings s @ snd (filter_errors_and_warnings (record_fetch_error s err) out)"
proof -
  let ?s1 = "record_fetch_error s err"
  let ?s4 = "snd (extract_package_completions
                (update_progress (note_activity ?s1 (detect_build_activity out)) out) out)"
  have "filter_errors_and_warnings ?s4 out = filter_errors_and_warnings ?s1 out"
    by (rule filter_errors_and_warnings_cong) simp_all
  then show ?thesis
    by (simp add: analyse_def Let_def)
qed

lemma analyse_state:
  "state (analyse s (out, err, c)) = update_build_state (analyse s (out, err, c)) out c"
  by (simp add: analyse_def Let_def update_build_state_def)

lemma analyse_constants [simp]:
  "focus_packages (analyse s fetched) = focus_packages s"
  "max_duration (analyse s fetched) = max_duration s"
  "start_time (analyse s fetched) = start_time s"
  by (cases fetched; simp add: analyse_def Let_def)+

lemma check_constants [simp]:
  "focus_packages (snd (check_build_status s t f)) = focus_packages s"
  "max_duration (snd (check_build_status s t f)) = max_duration s"
  "start_time (snd (check_build_status s t f)) = start_time s"
  by (simp_all add: check_build_status_def)

lemma step_constants [simp]:
  "focus_packages (step s c) = focus_packages s"
  "max_duration (step s c) = max_duration s"
  "start_time (step s c) = start_time s"
  by (cases c; simp)+

lemma check_current_progress:
  "current_progress (snd (check_build_status s t f)) =
     (if \<not> timed_out s t \<and> extract_progress s (fst (run_bash_output f)) > current_progress s
      then extract_progress s (fst (run_bash_output f))
      else current_progress s)"
proof (cases "run_bash_output f")
  case (fields out err c)
  then show ?thesis
    by (simp add: check_build_status_def analyse_current_progress)
qed

lemma check_progress_snapshot:
  "progress (fst (check_build_status s t f)) = current_progress (snd (check_build_status s t f))"
  by (simp add: check_build_status_def snapshot_def)

lemma check_status_snapshot:
  "fst (check_build_status s t f) = snapshot (snd (check_build_status s t f)) (t - start_time s)"
  by (simp add: check_build_status_def)

section \<open>Progress never decreases\<close>

lemma step_progress_mono: "current_progress s \<le> current_progress (step s c)"
  by (cases c) (simp_all add: check_current_progress)

lemma statuses_progress_lower:
  "\<forall>st \<in> set (statuses s cs). current_progress s \<le> progress st"
proof (induction cs arbitrary: s)
  case Nil
  then show ?case by simp
next
  case (Cons c cs)
  have le: "current_progress s \<le> current_progress (step s c)"
    by (rule step_progress_mono)
  have rest: "\<forall>st \<in> set (statuses (step s c) cs). current_progress s \<le> progress st"
    using Cons.IH [of "step s c"] le by auto
  show ?case
  proof (cases c)
    case (Check t f)
    then show ?thesis using rest le by (simp add: check_progress_snapshot)
  next
    case NextWait
    then show ?thesis using rest by simp
  qed
qed

lemma statuses_progress_sorted: "sorted (map progress (statuses s cs))"
proof (induction cs arbitrary: s)
  case Nil
  then show ?case by simp
next
  case (Cons c cs)
  show ?case
  proof (cases c)
    case (Check t f)
    have "\<forall>st \<in> set (statuses (step s c) cs).
            progress (fst (check_build_status s t f)) \<le> progress st"
      using statuses_progress_lower [of "step s c" cs] Check
      by (simp add: check_progress_snapshot)
    then show ?thesis using Cons.IH [of "step s c"] Check by simp
  next
    case NextWait
    then show ?thesis using Cons.IH [of "step s c"] by simp
  qed
qed

text \<open>
  C1. In every session, from any monitor and for any sequence of calls, whatever the
  chunks are and in whatever order or repetition they come, the progress values of
  the returned statuses are non-decreasing from call to call. The returned progress
  is the monitor's \<open>current_progress\<close> after the call, and a call replaces
  \<open>current_progress\<close> only by an extracted value that is strictly greater.
\<close>

theorem progress_non_decreasing:
  "sorted (map progress (statuses s cs))
   \<and> progress (fst (check_build_status s t f)) = current_progress (snd (check_build_status s t f))
   \<and> current_progress (snd (check_build_status s t f)) =
       (if \<not> timed_out s t \<and> extract_progress s (fst (run_bash_output f)) > current_progress s
        then extract_progress s (fst (run_bash_output f))
        else current_progress s)"
  using statuses_progress_sorted check_progress_snapshot check_current_progress by blast

subsection \<open>A session on concrete chunks\<close>

lemma extract_progress_numeric:
  "findall_progress out \<noteq> [] \<Longrightarrow>
   extract_progress s out = max_list (map int_of_digits (findall_progress out))"
  by (simp add: extract_progress_def Let_def)

lemma fetch_chunk_a: "run_bash_output (Ran 0 ''[ 42%] a.o'' []) = (''[ 42%] a.o'', [], False)"
  by code_simp

lemma fetch_chunk_b: "run_bash_output (Ran 0 ''[80%] b'' []) = (''[80%] b'', [], False)"
  by code_simp

lemma findall_chunk_a: "findall_progress ''[ 42%] a.o'' = [''42'']"
  by code_simp

lemma findall_chunk_b: "findall_progress ''[80%] b'' = [''80'']"
  by code_simp

lemma digits_42: "int_of_digits ''42'' = 42"
  by code_simp

lemma digits_80: "int_of_digits ''80'' = 80"
  by code_simp

lemma init_fields [simp]:
  "start_time (init_monitor p m n) = n"
  "max_duration (init_monitor p m n) = m"
  "current_progress (init_monitor p m n) = 0"
  "errors (init_monitor p m n) = []"
  "warnings (init_monitor p m n) = []"
  "packages_built (init_monitor p m n) = []"
  "current_interval_index (init_monitor p m n) = 0"
  "consecutive_no_activity (init_monitor p m n) = 0"
  "state (init_monitor p m n) = STARTING"
  by (simp_all add: init_monitor_def)

lemma init_default_packages [simp]:
  "focus_packages (init_monitor None m n) = [''http'', ''rest'', ''openapi'']"
  by (simp add: init_monitor_def)

theorem progress_non_decreasing_witness:
  "sorted (map progress (statuses (init_monitor None 3600 0)
      [Check 1 (Ran 0 ''[ 42%] a.o'' []), NextWait, Check 2 (Ran 0 ''[80%] b'' []),
       Check 3 (Ran 0 ''[ 42%] a.o'' [])]))
   \<and> map progress (statuses (init_monitor None 3600 0)
      [Check 1 (Ran 0 ''[ 42%] a.o'' []), NextWait, Check 2 (Ran 0 ''[80%] b'' []),
       Check 3 (Ran 0 ''[ 42%] a.o'' [])]) = [42, 80, 80]"
proof -
  let ?a = "Ran 0 ''[ 42%] a.o'' []" and ?b = "Ran 0 ''[80%] b'' []"
  let ?s0 = "init_monitor None 3600 0"
  let ?s1 = "step ?s0 (Check 1 ?a)"
  let ?s2 = "step ?s1 NextWait"
  let ?s3 = "step ?s2 (Check 2 ?b)"
  let ?s4 = "step ?s3 (Check 3 ?a)"
  have xa: "extract_progress s ''[ 42%] a.o'' = 42" for s
    using extract_progress_numeric [of "''[ 42%] a.o''" s] unfolding findall_chunk_a
    by (simp add: digits_42)
  have xb: "extract_progress s ''[80%] b'' = 80" for s
    using extract_progress_numeric [of "''[80%] b''" s] unfolding findall_chunk_b
    by (simp add: digits_80)
  have p1: "current_progress ?s1 = 42"
    using progress_non_decreasing [of ?s0 "[]" 1 ?a]
    by (simp add: timed_out_def fetch_chunk_a xa)
  have p2: "current_progress ?s2 = 42"
    using p1 by simp
  have p3: "current_progress ?s3 = 80"
    using progress_non_decreasing [of ?s2 "[]" 2 ?b] p2
    by (simp add: timed_out_def fetch_chunk_b xb)
  have p4: "current_progress ?s4 = 80"
    using progress_non_decreasing [of ?s3 "[]" 3 ?a] p3
    by (simp add: timed_out_def fetch_chunk_a xa)
  have "map progress (statuses ?s0 [Check 1 ?a, NextWait, Check 2 ?b, Check 3 ?a]) = [42, 80, 80]"
    using p1 p3 p4 by (simp add: check_progress_snapshot)
  then show ?thesis
    using progress_non_decreasing [of ?s0 "[Check 1 ?a, NextWait, Check 2 ?b, Check 3 ?a]"]
    by simp
qed

section \<open>Signal extraction in closed form\<close>

lemma filter_step_snd: "snd (filter_step s acc raw) = snd acc"
  by (cases acc) (auto simp: filter_step_def Let_def)

lemma foldl_filter_step_snd: "snd (foldl (filter_step s) acc ls) = snd acc"
  by (induction ls arbitrary: acc) (simp_all add: filter_step_snd)

lemma filter_step_noise: "is_noise (strip raw) \<Longrightarrow> filter_step s acc raw = acc"
  by (cases acc) (simp add: filter_step_def Let_def)

lemma foldl_filter_step_drop_noise:
  "foldl (filter_step s) acc ls =
   foldl (filter_step s) acc (filter (\<lambda>raw. \<not> is_noise (strip raw)) ls)"
  by (induction ls arbitrary: acc) (simp_all add: filter_step_noise)

text \<open>What the loop appends to \<open>new_errors\<close> for one line: nothing, or one entry.\<close>

definition error_of_line :: "monitor \<Rightarrow> string \<Rightarrow> error_entry" where
  "error_of_line s line =
     \<lparr> message = line, package_related = Some (is_package_related s line),
       critical = is_error line \<rparr>"

definition retained_line :: "monitor \<Rightarrow> string \<Rightarrow> bool" where
  "retained_line s line =
     (line \<noteq> [] \<and> \<not> is_noise line
      \<and> (is_error line \<or> (is_package_related s line \<and> is_warning line))
      \<and> line \<notin> set (map message (errors s)))"

lemma filter_step_fst:
  "fst (filter_step s acc raw) =
     (if retained_line s (strip raw) then fst acc @ [error_of_line s (strip raw)] else fst acc)"
  by (cases acc) (auto simp: filter_step_def Let_def retained_line_def error_of_line_def)

lemma foldl_filter_step_fst:
  "fst (foldl (filter_step s) acc ls) =
     fst acc @ map (error_of_line s) (filter (retained_line s) (map strip ls))"
  by (induction ls arbitrary: acc) (simp_all add: filter_step_fst)

lemma new_errors_eq:
  "fst (filter_errors_and_warnings s out) =
     map (error_of_line s) (filter (retained_line s) (map strip (split_nl out)))"
  by (simp add: filter_errors_and_warnings_def foldl_filter_step_fst)

lemma new_warnings_empty: "snd (filter_errors_and_warnings s out) = []"
  by (simp add: filter_errors_and_warnings_def foldl_filter_step_snd)

section \<open>Errors and warnings of a check\<close>

lemma check_errors:
  "errors (snd (check_build_status s t f)) =
     (if timed_out s t then errors s
      else errors (record_fetch_error s (fst (snd (run_bash_output f))))
           @ fst (filter_errors_and_warnings (record_fetch_error s (fst (snd (run_bash_output f))))
                    (fst (run_bash_output f))))"
proof (cases "run_bash_output f")
  case (fields out err c)
  then show ?thesis
    by (simp add: check_build_status_def analyse_errors)
qed

lemma check_warnings: "warnings (snd (check_build_status s t f)) = warnings s"
proof (cases "run_bash_output f")
  case (fields out err c)
  then show ?thesis
    by (simp add: check_build_status_def analyse_warnings new_warnings_empty)
qed

lemma check_errors_snapshot:
  "st_errors (fst (check_build_status s t f)) = errors (snd (check_build_status s t f))"
  by (simp add: check_build_status_def snapshot_def)

lemma step_warnings: "warnings (step s c) = warnings s"
  by (cases c) (simp_all add: check_warnings)

lemma run_warnings: "warnings (run s cs) = warnings s"
  unfolding run_def by (induction cs arbitrary: s) (simp_all add: step_warnings)

lemma record_fetch_error_none [simp]: "record_fetch_error s [] = s"
  by (simp add: record_fetch_error_def)

text \<open>A chunk in which the same line comes twice.\<close>

definition chunk_twice :: string where
  "chunk_twice = ''error: x'' @ [newline] @ ''error: x''"

lemma fetch_two_errors:
  "run_bash_output (Ran 0 chunk_twice [])
     = (chunk_twice, [], False)"
  by code_simp

lemma lines_two_errors:
  "map strip (split_nl chunk_twice) = [''error: x'', ''error: x'']"
  by code_simp

lemma line_error_x:
  "is_error ''error: x''" "\<not> is_noise ''error: x''"
  by code_simp+

lemma fetch_exception_x:
  "run_bash_output (OtherException ''x'') = ([], ''Error getting bash output: x'', False)"
  by (simp add: run_bash_output_def)

lemma fetch_exception_x_is_error:
  "contains ''error'' (lower ''Error getting bash output: x'')"
  by code_simp

lemma lines_empty: "map strip (split_nl []) = [[]]"
  by code_simp

lemma timed_out_check [simp]:
  "timed_out (snd (check_build_status s t f)) t' = timed_out s t'"
  by (simp add: timed_out_def)

lemma timed_out_step [simp]: "timed_out (step s c) t' = timed_out s t'"
  by (simp add: timed_out_def)

lemma check_fetch_exception_errors:
  assumes "\<not> timed_out s t"
  shows "errors (snd (check_build_status s t (OtherException ''x''))) =
           errors s @ [\<lparr> message = ''Error getting bash output: x'', package_related = None,
                         critical = True \<rparr>]"
proof -
  have nr: "\<not> retained_line s' []" for s'
    by (simp add: retained_line_def)
  show ?thesis
    using assms fetch_exception_x_is_error
    by (simp add: check_errors fetch_exception_x new_errors_eq lines_empty nr
        record_fetch_error_def del: split_nl.simps)
qed

text \<open>
  C2. The claim: no two entries of the errors list have the same message, also when the
  same line comes twice in one chunk and for the entries appended after a failed fetch.
  The code tests a line against \<^verbatim>\<open>self.errors\<close> only, which the loop over the lines
  does not extend, and appends the error text of a fetch with no test at all. On the
  chunk \<open>chunk_twice\<close> the first check of a fresh monitor returns two entries with
  the message \<^verbatim>\<open>error: x\<close>, and two checks whose fetch raises the same exception
  leave two entries with the same message.
\<close>

theorem duplicate_error_messages:
  "map message (st_errors (fst (check_build_status (init_monitor None 3600 0) 1
      (Ran 0 chunk_twice []))))
     = [''error: x'', ''error: x'']
   \<and> map message (errors (run (init_monitor None 3600 0)
        [Check 1 (OtherException ''x''), Check 2 (OtherException ''x'')]))
     = [''Error getting bash output: x'', ''Error getting bash output: x'']"
proof -
  let ?s0 = "init_monitor None 3600 0"
  have r: "retained_line ?s0 ''error: x''"
    by (simp add: retained_line_def line_error_x)
  have a: "map message (st_errors (fst (check_build_status ?s0 1
      (Ran 0 chunk_twice [])))) = [''error: x'', ''error: x'']"
    unfolding check_errors_snapshot check_errors fetch_two_errors
    by (simp add: timed_out_def new_errors_eq lines_two_errors r error_of_line_def
        del: split_nl.simps)
  have nt: "\<not> timed_out ?s0 t" if "t \<le> 3600" for t
    using that by (simp add: timed_out_def)
  have b: "map message (errors (run ?s0
        [Check 1 (OtherException ''x''), Check 2 (OtherException ''x'')]))
     = [''Error getting bash output: x'', ''Error getting bash output: x'']"
    by (simp add: run_def check_fetch_exception_errors nt)
  show ?thesis using a b by simp
qed

section \<open>Noise, warnings and what is retained\<close>

lemma retained_in_errors:
  assumes "raw \<in> set (split_nl out)" and "strip raw \<noteq> []" and "\<not> is_noise (strip raw)"
    and "is_error (strip raw) \<or> (is_package_related s (strip raw) \<and> is_warning (strip raw))"
  shows "strip raw \<in> set (map message (errors s @ fst (filter_errors_and_warnings s out)))"
proof (cases "strip raw \<in> set (map message (errors s))")
  case True
  then show ?thesis by simp
next
  case False
  with assms have "retained_line s (strip raw)"
    by (simp add: retained_line_def)
  with assms(1) have "strip raw \<in> set (filter (retained_line s) (map strip (split_nl out)))"
    by simp
  then have "message (error_of_line s (strip raw))
      \<in> set (map message (fst (filter_errors_and_warnings s out)))"
    unfolding new_errors_eq by (simp add: image_iff del: split_nl.simps) blast
  then show ?thesis by (simp add: error_of_line_def)
qed

lemma new_errors_kind:
  assumes "e \<in> set (fst (filter_errors_and_warnings s out))"
  shows "critical e = is_error (message e)"
    and "is_error (message e) \<or> (is_package_related s (message e) \<and> is_warning (message e))"
    and "\<not> is_noise (message e)"
    and "message e \<noteq> []"
    and "message e \<notin> set (map message (errors s))"
    and "\<exists>raw \<in> set (split_nl out). message e = strip raw"
  using assms unfolding new_errors_eq
  by (auto simp: retained_line_def error_of_line_def simp del: split_nl.simps)

lemma is_warning_nonempty: "is_warning line \<Longrightarrow> line \<noteq> []"
  by (auto simp: is_warning_def lower_def)

lemma appended_if_new:
  assumes "raw \<in> set (split_nl out)" and "strip raw \<noteq> []" and "\<not> is_noise (strip raw)"
    and "is_error (strip raw) \<or> (is_package_related s (strip raw) \<and> is_warning (strip raw))"
    and "strip raw \<notin> set (map message (errors s))"
  shows "\<lparr> message = strip raw, package_related = Some (is_package_related s (strip raw)),
           critical = is_error (strip raw) \<rparr> \<in> set (fst (filter_errors_and_warnings s out))"
proof -
  from assms have "retained_line s (strip raw)"
    by (simp add: retained_line_def)
  with assms(1) have "strip raw \<in> set (filter (retained_line s) (map strip (split_nl out)))"
    by simp
  then have "error_of_line s (strip raw) \<in> set (fst (filter_errors_and_warnings s out))"
    unfolding new_errors_eq set_map by (rule imageI)
  then show ?thesis by (simp add: error_of_line_def)
qed

text \<open>
  C10, amended. Signal extraction returns no new plain warning for any chunk, so the
  warnings list of a session never grows. A warning line that is not noise and is
  target-related or matches a critical-error pattern is retained as an error: its text
  is among the error messages after the extraction, and unless the text was recorded
  before, the first branch appends it, critical exactly when the line matches a
  critical-error pattern. Every entry that the extraction appends is critical or a
  target-related warning, and is critical exactly when its line matches a
  critical-error pattern: a warning line that is neither target-related nor critical
  is not retained.
\<close>

theorem plain_warnings_never_retained:
  "snd (filter_errors_and_warnings s out) = []
   \<and> warnings (snd (check_build_status s t f)) = warnings s
   \<and> warnings (run s cs) = warnings s
   \<and> (\<forall>raw \<in> set (split_nl out).
         \<not> is_noise (strip raw) \<and> is_warning (strip raw)
         \<and> (is_package_related s (strip raw) \<or> is_error (strip raw))
         \<longrightarrow> strip raw \<in> set (map message (errors s @ fst (filter_errors_and_warnings s out)))
             \<and> (strip raw \<notin> set (map message (errors s)) \<longrightarrow>
                  \<lparr> message = strip raw,
                    package_related = Some (is_package_related s (strip raw)),
                    critical = is_error (strip raw) \<rparr>
                  \<in> set (fst (filter_errors_and_warnings s out))))
   \<and> (\<forall>e \<in> set (fst (filter_errors_and_warnings s out)).
         critical e = is_error (message e)
         \<and> (critical e \<or> (is_warning (message e) \<and> is_package_related s (message e))))"
proof -
  have keep: "strip raw \<in> set (map message (errors s @ fst (filter_errors_and_warnings s out)))
      \<and> (strip raw \<notin> set (map message (errors s)) \<longrightarrow>
            \<lparr> message = strip raw, package_related = Some (is_package_related s (strip raw)),
              critical = is_error (strip raw) \<rparr>
            \<in> set (fst (filter_errors_and_warnings s out)))"
    if h: "raw \<in> set (split_nl out)" "\<not> is_noise (strip raw)" "is_warning (strip raw)"
      "is_package_related s (strip raw) \<or> is_error (strip raw)" for raw
  proof -
    have ne: "strip raw \<noteq> []"
      using h(3) by (rule is_warning_nonempty)
    have k: "is_error (strip raw) \<or> (is_package_related s (strip raw) \<and> is_warning (strip raw))"
      using h(3,4) by blast
    show ?thesis
      using retained_in_errors [OF h(1) ne h(2) k] appended_if_new [OF h(1) ne h(2) k]
      by blast
  qed
  have kind: "critical e = is_error (message e)
      \<and> (critical e \<or> (is_warning (message e) \<and> is_package_related s (message e)))"
    if "e \<in> set (fst (filter_errors_and_warnings s out))" for e
    using new_errors_kind(1,2) [OF that] by blast
  have a: "\<forall>raw \<in> set (split_nl out).
         \<not> is_noise (strip raw) \<and> is_warning (strip raw)
         \<and> (is_package_related s (strip raw) \<or> is_error (strip raw))
         \<longrightarrow> strip raw \<in> set (map message (errors s @ fst (filter_errors_and_warnings s out)))
             \<and> (strip raw \<notin> set (map message (errors s)) \<longrightarrow>
                  \<lparr> message = strip raw,
                    package_related = Some (is_package_related s (strip raw)),
                    critical = is_error (strip raw) \<rparr>
                  \<in> set (fst (filter_errors_and_warnings s out)))"
    using keep by blast
  have b: "\<forall>e \<in> set (fst (filter_errors_and_warnings s out)).
         critical e = is_error (message e)
         \<and> (critical e \<or> (is_warning (message e) \<and> is_package_related s (message e)))"
    using kind by blast
  show ?thesis
    using new_warnings_empty [of s out] check_warnings [of s t f] run_warnings [of s cs] a b
    by (intro conjI)
qed

definition line_package_warning :: string where
  "line_package_warning = ''packages/http/a.cc: warning: x''"

lemma line_package_warning_facts:
  "split_nl line_package_warning = [line_package_warning]"
  "strip line_package_warning = line_package_warning"
  "line_package_warning \<noteq> []"
  "\<not> is_noise line_package_warning"
  "is_warning line_package_warning"
  "is_package_related (init_monitor None 3600 0) line_package_warning"
  "\<not> is_error line_package_warning"
  by code_simp+

theorem plain_warnings_never_retained_witness:
  "is_warning line_package_warning
   \<and> is_package_related (init_monitor None 3600 0) line_package_warning
   \<and> \<not> is_noise line_package_warning
   \<and> snd (filter_errors_and_warnings (init_monitor None 3600 0) line_package_warning) = []
   \<and> map message (fst (filter_errors_and_warnings (init_monitor None 3600 0) line_package_warning))
       = [line_package_warning]
   \<and> map critical (fst (filter_errors_and_warnings (init_monitor None 3600 0) line_package_warning))
       = [False]"
proof -
  let ?s0 = "init_monitor None 3600 0"
  let ?new = "fst (filter_errors_and_warnings ?s0 line_package_warning)"
  note t = plain_warnings_never_retained [of ?s0 line_package_warning 0 TimeoutExpired "[]"]
  have "line_package_warning \<in> set (map message (errors ?s0 @ ?new))"
    using t line_package_warning_facts by simp
  moreover have "?new = [error_of_line ?s0 line_package_warning]"
    by (simp add: new_errors_eq line_package_warning_facts retained_line_def)
  ultimately show ?thesis
    using t line_package_warning_facts by (simp add: error_of_line_def)
qed

definition line_critical_warning :: string where
  "line_critical_warning = ''warning: x error: y''"

lemma line_critical_warning_facts:
  "split_nl line_critical_warning = [line_critical_warning]"
  "strip line_critical_warning = line_critical_warning"
  "line_critical_warning \<noteq> []"
  "\<not> is_noise line_critical_warning"
  "is_warning line_critical_warning"
  "\<not> is_package_related (init_monitor None 3600 0) line_critical_warning"
  "is_error line_critical_warning"
  by code_simp+

theorem warning_line_retained_counterexample:
  "is_warning line_critical_warning
   \<and> \<not> is_package_related (init_monitor None 3600 0) line_critical_warning
   \<and> map message (fst (filter_errors_and_warnings (init_monitor None 3600 0) line_critical_warning))
       = [line_critical_warning]"
  by (simp add: new_errors_eq line_critical_warning_facts retained_line_def error_of_line_def)

text \<open>
  C5, amended. A line whose trimmed text matches a noise pattern is dropped by signal
  extraction before it is classified: it is not among the messages of the new errors
  or of the new warnings, and deleting the noise lines from the chunk leaves the
  result of the extraction unchanged. Activity detection and progress extraction read
  the chunk as it is, noise lines included.
\<close>

theorem noise_dropped_by_signal_extraction:
  "(\<forall>raw \<in> set (split_nl out). is_noise (strip raw) \<longrightarrow>
       strip raw \<notin> set (map message (fst (filter_errors_and_warnings s out)))
       \<and> strip raw \<notin> set (map w_message (snd (filter_errors_and_warnings s out))))
   \<and> filter_errors_and_warnings s out =
       foldl (filter_step s) ([], []) (filter (\<lambda>raw. \<not> is_noise (strip raw)) (split_nl out))"
proof -
  have a: "strip raw \<notin> set (map message (fst (filter_errors_and_warnings s out)))"
    if "is_noise (strip raw)" for raw
    using that new_errors_kind(3) [of _ s out] by auto
  have b: "x \<notin> set (map w_message (snd (filter_errors_and_warnings s out)))" for x
    by (simp add: new_warnings_empty)
  have c: "filter_errors_and_warnings s out =
       foldl (filter_step s) ([], []) (filter (\<lambda>raw. \<not> is_noise (strip raw)) (split_nl out))"
    unfolding filter_errors_and_warnings_def by (rule foldl_filter_step_drop_noise)
  show ?thesis using a b c by blast
qed

definition line_noise :: string where
  "line_noise = ''warning: crypt cmake [7%]''"

definition chunk_noise :: string where
  "chunk_noise = ''error: x'' @ [newline] @ line_noise"

lemma chunk_noise_facts:
  "split_nl chunk_noise = [''error: x'', line_noise]"
  "strip line_noise = line_noise"
  "strip ''error: x'' = ''error: x''"
  "is_noise line_noise"
  by code_simp+

lemma chunk_noise_activity:
  "detect_build_activity chunk_noise"
  "\<not> detect_build_activity ''error: x''"
  by code_simp+

lemma chunk_noise_progress:
  "extract_progress (init_monitor None 3600 0) chunk_noise = 7"
  "extract_progress (init_monitor None 3600 0) ''error: x'' = 0"
  by code_simp+

theorem noise_dropped_by_signal_extraction_witness:
  "line_noise \<in> set (split_nl chunk_noise) \<and> is_noise (strip line_noise)
   \<and> line_noise \<notin> set (map message (fst (filter_errors_and_warnings (init_monitor None 3600 0) chunk_noise)))
   \<and> map message (fst (filter_errors_and_warnings (init_monitor None 3600 0) chunk_noise))
       = [''error: x'']"
proof -
  let ?s0 = "init_monitor None 3600 0"
  note t = noise_dropped_by_signal_extraction [of chunk_noise ?s0]
  have mem: "line_noise \<in> set (split_nl chunk_noise)"
    by (simp add: chunk_noise_facts(1))
  have nz: "is_noise (strip line_noise)"
    by (simp add: chunk_noise_facts)
  have kept: "filter (\<lambda>raw. \<not> is_noise (strip raw)) (split_nl chunk_noise) = [''error: x'']"
    by (simp add: chunk_noise_facts line_error_x)
  have "filter_errors_and_warnings ?s0 chunk_noise = foldl (filter_step ?s0) ([], []) [''error: x'']"
    using t unfolding kept by (rule conjunct2)
  then have msgs: "map message (fst (filter_errors_and_warnings ?s0 chunk_noise)) = [''error: x'']"
    by (simp add: filter_step_fst chunk_noise_facts retained_line_def line_error_x
        error_of_line_def)
  from t mem nz
  have "strip line_noise \<notin> set (map message (fst (filter_errors_and_warnings ?s0 chunk_noise)))"
    by blast
  then have "line_noise \<notin> set (map message (fst (filter_errors_and_warnings ?s0 chunk_noise)))"
    unfolding chunk_noise_facts(2) .
  with mem nz msgs show ?thesis by blast
qed

theorem noise_line_read_by_activity_and_progress:
  "split_nl chunk_noise = [''error: x'', line_noise] \<and> is_noise (strip line_noise)
   \<and> detect_build_activity chunk_noise \<and> \<not> detect_build_activity ''error: x''
   \<and> extract_progress (init_monitor None 3600 0) chunk_noise = 7
   \<and> extract_progress (init_monitor None 3600 0) ''error: x'' = 0"
  using chunk_noise_facts chunk_noise_activity chunk_noise_progress by simp

section \<open>The timeout\<close>

text \<open>A call of a session made after the maximum duration; waits are not timed.\<close>

fun late :: "monitor \<Rightarrow> call \<Rightarrow> bool" where
  "late s (Check current_time f) = timed_out s current_time"
| "late s NextWait = True"

lemma late_cong: "start_time a = start_time b \<Longrightarrow> max_duration a = max_duration b \<Longrightarrow> late a c = late b c"
  by (cases c) (simp_all add: timed_out_def)

lemma check_timed_out:
  "timed_out s t \<Longrightarrow>
   check_build_status s t f = (snapshot (s\<lparr>state := TIMEOUT\<rparr>) (t - start_time s), s\<lparr>state := TIMEOUT\<rparr>)"
  by (simp add: check_build_status_def)

text \<open>The fields that a session accumulates: progress, built packages, errors, warnings.\<close>

definition accumulated :: "monitor \<Rightarrow> int \<times> string list \<times> error_entry list \<times> warning_entry list" where
  "accumulated s = (current_progress s, packages_built s, errors s, warnings s)"

definition reported :: "BuildStatus \<Rightarrow> int \<times> string list \<times> error_entry list \<times> warning_entry list" where
  "reported st = (progress st, st_packages_built st, st_errors st, st_warnings st)"

lemma late_step_accumulated: "late s c \<Longrightarrow> accumulated (step s c) = accumulated s"
  by (cases c) (simp_all add: check_timed_out accumulated_def)

lemma late_run:
  "list_all (late s) cs \<Longrightarrow>
   accumulated (run s cs) = accumulated s
   \<and> list_all (\<lambda>st. st_state st = TIMEOUT \<and> reported st = accumulated s) (statuses s cs)"
proof (induction cs arbitrary: s)
  case Nil
  then show ?case by (simp add: run_def)
next
  case (Cons c cs)
  have acc: "accumulated (step s c) = accumulated s"
    using Cons.prems by (simp add: late_step_accumulated)
  have "list_all (late (step s c)) cs"
    using Cons.prems late_cong [of "step s c" s] by (simp add: list_all_iff)
  from Cons.IH [OF this] acc
  have rest: "accumulated (run (step s c) cs) = accumulated s"
    "list_all (\<lambda>st. st_state st = TIMEOUT \<and> reported st = accumulated s) (statuses (step s c) cs)"
    by simp_all
  show ?case
  proof (cases c)
    case (Check t f)
    with Cons.prems have "timed_out s t" by simp
    then have "st_state (fst (check_build_status s t f)) = TIMEOUT"
      "reported (fst (check_build_status s t f)) = accumulated s"
      by (simp_all add: check_timed_out snapshot_def reported_def accumulated_def)
    with rest Check show ?thesis by (simp add: run_def)
  next
    case NextWait
    with rest show ?thesis by (simp add: run_def)
  qed
qed

text \<open>
  C6. A check made after the maximum duration returns the phase TimedOut at once: its
  result does not depend on what a fetch would return, the returned progress, built
  packages, errors and warnings are the stored ones, and the monitor is left as it
  was but for the phase. The same holds for every later call of the session made
  after the maximum duration.
\<close>

theorem timeout_returns_immediately:
  assumes "timed_out s t" and "list_all (late s) later"
  shows "check_build_status s t f = check_build_status s t f'
   \<and> st_state (fst (check_build_status s t f)) = TIMEOUT
   \<and> reported (fst (check_build_status s t f)) = accumulated s
   \<and> snd (check_build_status s t f) = s\<lparr>state := TIMEOUT\<rparr>
   \<and> list_all (\<lambda>st. st_state st = TIMEOUT \<and> reported st = accumulated s)
        (statuses (snd (check_build_status s t f)) later)
   \<and> accumulated (run (snd (check_build_status s t f)) later) = accumulated s"
proof -
  let ?s' = "s\<lparr>state := TIMEOUT\<rparr>"
  have "list_all (late ?s') later"
    using assms(2) late_cong [of ?s' s] by (simp add: list_all_iff)
  from late_run [OF this] have "accumulated (run ?s' later) = accumulated s"
    "list_all (\<lambda>st. st_state st = TIMEOUT \<and> reported st = accumulated s) (statuses ?s' later)"
    by (simp_all add: accumulated_def)
  then show ?thesis
    using assms(1) by (simp add: check_timed_out snapshot_def reported_def accumulated_def)
qed

theorem timeout_returns_immediately_witness:
  "timed_out (init_monitor None 5 0) 6
   \<and> list_all (late (init_monitor None 5 0)) [NextWait, Check 7 (OtherException ''x'')]
   \<and> st_state (fst (check_build_status (init_monitor None 5 0) 6 TimeoutExpired)) = TIMEOUT
   \<and> reported (fst (check_build_status (init_monitor None 5 0) 6 TimeoutExpired)) = (0, [], [], [])
   \<and> map st_state (statuses (snd (check_build_status (init_monitor None 5 0) 6 TimeoutExpired))
        [NextWait, Check 7 (OtherException ''x'')]) = [TIMEOUT]"
proof -
  let ?s0 = "init_monitor None 5 0"
  let ?later = "[NextWait, Check 7 (OtherException ''x'')]"
  have a: "timed_out ?s0 6" and b: "list_all (late ?s0) ?later"
    by (simp_all add: timed_out_def)
  note t = timeout_returns_immediately [OF a b, of TimeoutExpired TimeoutExpired]
  have "accumulated ?s0 = (0, [], [], [])"
    by (simp add: accumulated_def)
  moreover have m: "map st_state (statuses x ?later) = [TIMEOUT]"
    if "list_all (\<lambda>st. st_state st = TIMEOUT \<and> reported st = v) (statuses x ?later)" for x v
    using that by simp
  have "map st_state (statuses (snd (check_build_status ?s0 6 TimeoutExpired)) ?later) = [TIMEOUT]"
    by (rule m) (rule t [THEN conjunct2, THEN conjunct2, THEN conjunct2, THEN conjunct2,
          THEN conjunct1])
  moreover have "st_state (fst (check_build_status ?s0 6 TimeoutExpired)) = TIMEOUT"
    "reported (fst (check_build_status ?s0 6 TimeoutExpired)) = accumulated ?s0"
    using t by blast+
  ultimately show ?thesis using a b by simp
qed

section \<open>The backoff scheduler\<close>

lemma analyse_counters:
  "consecutive_no_activity (analyse s (out, err, c)) =
     (if detect_build_activity out then 0 else consecutive_no_activity s + 1)"
  "current_interval_index (analyse s (out, err, c)) =
     (if detect_build_activity out then 0 else current_interval_index s)"
  by (simp_all add: analyse_def Let_def note_activity_def)

lemma check_counters:
  assumes "\<not> timed_out s t"
  shows "consecutive_no_activity (snd (check_build_status s t f)) =
     (if detect_build_activity (fst (run_bash_output f)) then 0 else consecutive_no_activity s + 1)"
    and "current_interval_index (snd (check_build_status s t f)) =
     (if detect_build_activity (fst (run_bash_output f)) then 0 else current_interval_index s)"
  using assms by (cases "run_bash_output f"; simp add: check_build_status_def analyse_counters)+

lemma next_wait_index:
  "current_interval_index (snd (get_next_wait_interval s)) =
     (if consecutive_no_activity s > 2 then min (current_interval_index s + 1) 5
      else current_interval_index s)"
  by (auto simp: get_next_wait_interval_def Let_def wait_intervals_def min_def)

lemma timed_out_next_wait [simp]:
  "timed_out (snd (get_next_wait_interval s)) t = timed_out s t"
  by (simp add: timed_out_def)

lemma next_wait_interval:
  assumes "current_interval_index s < 6"
  shows "fst (get_next_wait_interval s) =
     Some (wait_intervals ! current_interval_index (snd (get_next_wait_interval s)))"
proof -
  have "fst (get_next_wait_interval s) =
      (if current_interval_index (snd (get_next_wait_interval s)) < length wait_intervals
       then Some (wait_intervals ! current_interval_index (snd (get_next_wait_interval s)))
       else None)"
    by (simp add: get_next_wait_interval_def Let_def)
  moreover have "current_interval_index (snd (get_next_wait_interval s)) < 6"
    using assms unfolding next_wait_index by (simp add: min_def)
  moreover have "length wait_intervals = 6"
    by (simp add: wait_intervals_def)
  ultimately show ?thesis by simp
qed

text \<open>A check that is not timed out and whose chunk shows no build activity.\<close>

definition inactive_check :: "monitor \<Rightarrow> real \<Rightarrow> fetch \<Rightarrow> bool" where
  "inactive_check s t f = (\<not> timed_out s t \<and> \<not> detect_build_activity (fst (run_bash_output f)))"

definition active_check :: "monitor \<Rightarrow> real \<Rightarrow> fetch \<Rightarrow> bool" where
  "active_check s t f = (\<not> timed_out s t \<and> detect_build_activity (fst (run_bash_output f)))"

lemma inactive_check_step [simp]: "inactive_check (step s c) t f = inactive_check s t f"
  by (simp add: inactive_check_def)

text \<open>
  C8. A check in which activity is detected sets the interval index and the counter of
  inactive checks to 0, whatever they were. A check without activity adds one to the
  counter and leaves the index. \<^verbatim>\<open>get_next_wait_interval\<close> leaves the counter, moves
  the index by one step, capped at the last index 5 of the six intervals, when the
  counter is greater than 2, and leaves it otherwise; it returns the interval at the
  new index. So after activity the first and the second inactive check leave the index
  at the next wait, and the wait after the third advances it by exactly one step.
\<close>

theorem backoff_scheduler:
  "(active_check s t f \<longrightarrow>
      current_interval_index (snd (check_build_status s t f)) = 0
      \<and> consecutive_no_activity (snd (check_build_status s t f)) = 0)
   \<and> (inactive_check s t f \<longrightarrow>
      consecutive_no_activity (snd (check_build_status s t f)) = consecutive_no_activity s + 1
      \<and> current_interval_index (snd (check_build_status s t f)) = current_interval_index s)
   \<and> consecutive_no_activity (snd (get_next_wait_interval s)) = consecutive_no_activity s
   \<and> current_interval_index (snd (get_next_wait_interval s)) =
       (if consecutive_no_activity s > 2 then min (current_interval_index s + 1) 5
        else current_interval_index s)
   \<and> (current_interval_index s < 6 \<longrightarrow>
       fst (get_next_wait_interval s) =
         Some (wait_intervals ! current_interval_index (snd (get_next_wait_interval s))))
   \<and> (consecutive_no_activity s = 0 \<and> inactive_check s t1 f1 \<and> inactive_check s t2 f2
        \<and> inactive_check s t3 f3 \<longrightarrow>
       current_interval_index (run s [Check t1 f1, NextWait, Check t2 f2, NextWait])
         = current_interval_index s
       \<and> consecutive_no_activity (run s [Check t1 f1, NextWait, Check t2 f2, NextWait, Check t3 f3]) = 3
       \<and> current_interval_index
           (run s [Check t1 f1, NextWait, Check t2 f2, NextWait, Check t3 f3, NextWait])
         = min (current_interval_index s + 1) 5)"
proof -
  have three: "current_interval_index (run s [Check t1 f1, NextWait, Check t2 f2, NextWait])
         = current_interval_index s
       \<and> consecutive_no_activity (run s [Check t1 f1, NextWait, Check t2 f2, NextWait, Check t3 f3]) = 3
       \<and> current_interval_index
           (run s [Check t1 f1, NextWait, Check t2 f2, NextWait, Check t3 f3, NextWait])
         = min (current_interval_index s + 1) 5"
    if z: "consecutive_no_activity s = 0" and i1: "inactive_check s t1 f1"
      and i2: "inactive_check s t2 f2" and i3: "inactive_check s t3 f3"
  proof -
    let ?a = "step s (Check t1 f1)"
    let ?b = "step ?a NextWait"
    let ?c = "step ?b (Check t2 f2)"
    let ?d = "step ?c NextWait"
    let ?e = "step ?d (Check t3 f3)"
    have nt: "\<not> timed_out s t1" "\<not> timed_out ?b t2" "\<not> timed_out ?d t3"
      and na: "\<not> detect_build_activity (fst (run_bash_output f1))"
        "\<not> detect_build_activity (fst (run_bash_output f2))"
        "\<not> detect_build_activity (fst (run_bash_output f3))"
      using i1 i2 i3 by (simp_all add: inactive_check_def)
    have a: "consecutive_no_activity ?a = 1" "current_interval_index ?a = current_interval_index s"
      using check_counters [OF nt(1), of f1] na(1) z by simp_all
    have b: "consecutive_no_activity ?b = 1" "current_interval_index ?b = current_interval_index s"
      using a by (simp_all add: next_wait_index)
    have c: "consecutive_no_activity ?c = 2" "current_interval_index ?c = current_interval_index s"
      using check_counters [OF nt(2), of f2] na(2) b by simp_all
    have d: "consecutive_no_activity ?d = 2" "current_interval_index ?d = current_interval_index s"
      using c by (simp_all add: next_wait_index)
    have e: "consecutive_no_activity ?e = 3" "current_interval_index ?e = current_interval_index s"
      using check_counters [OF nt(3), of f3] na(3) d by simp_all
    have "current_interval_index (step ?e NextWait) = min (current_interval_index s + 1) 5"
      using e by (simp add: next_wait_index)
    with d e show ?thesis by (simp add: run_def)
  qed
  show ?thesis
    using check_counters [of s t f] next_wait_index [of s] next_wait_interval [of s] three
    by (simp add: active_check_def inactive_check_def)
qed

lemma no_activity_in_empty_chunk: "\<not> detect_build_activity []"
  by code_simp

lemma fetch_cmake:
  "run_bash_output (Ran 0 ''cmake'' []) = (''cmake'', [], False)"
  "detect_build_activity ''cmake''"
  by code_simp+

theorem backoff_scheduler_witness:
  "inactive_check (init_monitor None 3600 0) 1 TimeoutExpired
   \<and> active_check (init_monitor None 3600 0) 1 (Ran 0 ''cmake'' [])
   \<and> consecutive_no_activity (init_monitor None 3600 0) = 0
   \<and> current_interval_index (init_monitor None 3600 0) < 6
   \<and> current_interval_index (snd (check_build_status (init_monitor None 3600 0) 1 (Ran 0 ''cmake'' []))) = 0
   \<and> consecutive_no_activity
        (snd (check_build_status (init_monitor None 3600 0) 1 TimeoutExpired)) = 1
   \<and> fst (get_next_wait_interval (init_monitor None 3600 0)) = Some 30
   \<and> current_interval_index (run (init_monitor None 3600 0)
        [Check 1 TimeoutExpired, NextWait, Check 2 TimeoutExpired, NextWait,
         Check 3 TimeoutExpired, NextWait]) = 1"
proof -
  let ?s0 = "init_monitor None 3600 0"
  have i: "inactive_check ?s0 t TimeoutExpired" if "t \<le> 3600" for t
    using that no_activity_in_empty_chunk
    by (simp add: inactive_check_def timed_out_def run_bash_output_def)
  have a: "active_check ?s0 1 (Ran 0 ''cmake'' [])"
    by (simp add: active_check_def timed_out_def fetch_cmake)
  note t = backoff_scheduler [of ?s0 1 "Ran 0 ''cmake'' []" 1 TimeoutExpired 2 TimeoutExpired
      3 TimeoutExpired]
  note u = backoff_scheduler [of ?s0 1 TimeoutExpired]
  have "current_interval_index (snd (check_build_status ?s0 1 (Ran 0 ''cmake'' []))) = 0"
    using t a by blast
  moreover have "consecutive_no_activity (snd (check_build_status ?s0 1 TimeoutExpired)) = 1"
    using u i [of 1] by simp
  moreover have "fst (get_next_wait_interval ?s0) = Some 30"
    using t by (simp add: wait_intervals_def get_next_wait_interval_def Let_def)
  moreover have "current_interval_index (run ?s0
        [Check 1 TimeoutExpired, NextWait, Check 2 TimeoutExpired, NextWait,
         Check 3 TimeoutExpired, NextWait]) = 1"
    using t i [of 1] i [of 2] i [of 3] by simp
  ultimately show ?thesis using i [of 1] a by simp
qed

section \<open>Completed packages\<close>

lemma package_step_appends:
  "\<exists>added. package_step out (newly, built) p = (newly @ added, built @ added)
      \<and> distinct added \<and> set added \<inter> set built = {} \<and> set added \<subseteq> {p}"
  by (simp add: package_step_def)

lemma foldl_package_step_appends:
  "\<exists>added. foldl (package_step out) (newly, built) ps = (newly @ added, built @ added)
      \<and> distinct added \<and> set added \<inter> set built = {} \<and> set added \<subseteq> set ps"
proof (induction ps arbitrary: newly built)
  case Nil
  then show ?case by simp
next
  case (Cons p ps)
  obtain a where a: "package_step out (newly, built) p = (newly @ a, built @ a)"
    "distinct a" "set a \<inter> set built = {}" "set a \<subseteq> {p}"
    using package_step_appends by blast
  obtain b where b: "foldl (package_step out) (newly @ a, built @ a) ps
      = ((newly @ a) @ b, (built @ a) @ b)"
    "distinct b" "set b \<inter> set (built @ a) = {}" "set b \<subseteq> set ps"
    using Cons.IH by blast
  have "foldl (package_step out) (newly, built) (p # ps) = (newly @ (a @ b), built @ (a @ b))"
    using a(1) b(1) by simp
  moreover have "distinct (a @ b)" "set (a @ b) \<inter> set built = {}" "set (a @ b) \<subseteq> set (p # ps)"
    using a b by auto
  ultimately show ?case by blast
qed

lemma extract_package_completions_appends:
  "packages_built (snd (extract_package_completions s out))
     = packages_built s @ fst (extract_package_completions s out)"
  "distinct (fst (extract_package_completions s out))"
  "set (fst (extract_package_completions s out)) \<inter> set (packages_built s) = {}"
  "set (fst (extract_package_completions s out)) \<subseteq> set (focus_packages s)"
  using foldl_package_step_appends [of out "[]" "packages_built s" "focus_packages s"]
  by (auto simp: extract_package_completions_def)

lemma extract_package_completions_cong:
  assumes "packages_built a = packages_built b" and "focus_packages a = focus_packages b"
  shows "fst (extract_package_completions a out) = fst (extract_package_completions b out)"
  unfolding extract_package_completions_def assms by (simp split: prod.splits)

lemma analyse_packages_built:
  "packages_built (analyse s (out, err, c)) = packages_built s @ fst (extract_package_completions s out)"
proof -
  let ?s3 = "update_progress (note_activity (record_fetch_error s err) (detect_build_activity out)) out"
  have "fst (extract_package_completions ?s3 out) = fst (extract_package_completions s out)"
    by (rule extract_package_completions_cong) simp_all
  moreover have "packages_built (analyse s (out, err, c))
      = packages_built (snd (extract_package_completions ?s3 out))"
    by (simp add: analyse_def Let_def)
  ultimately show ?thesis
    by (simp add: extract_package_completions_appends(1))
qed

lemma check_packages_built:
  "packages_built (snd (check_build_status s t f)) =
     packages_built s @ (if timed_out s t then []
                         else fst (extract_package_completions s (fst (run_bash_output f))))"
  by (cases "run_bash_output f") (simp add: check_build_status_def analyse_packages_built)

lemma check_packages_snapshot:
  "st_packages_built (fst (check_build_status s t f)) = packages_built (snd (check_build_status s t f))"
  by (simp add: check_build_status_def snapshot_def)

lemma step_packages_built:
  "prefix (packages_built s) (packages_built (step s c))"
  "distinct (packages_built s) \<Longrightarrow> distinct (packages_built (step s c))"
proof -
  show "prefix (packages_built s) (packages_built (step s c))"
    by (cases c) (simp_all add: check_packages_built)
  assume d: "distinct (packages_built s)"
  show "distinct (packages_built (step s c))"
  proof (cases c)
    case (Check t f)
    then show ?thesis
      using d extract_package_completions_appends(2,3) [of s "fst (run_bash_output f)"]
      by (auto simp: check_packages_built)
  next
    case NextWait
    then show ?thesis using d by simp
  qed
qed

lemma run_packages_built:
  "prefix (packages_built s) (packages_built (run s cs))"
  "distinct (packages_built s) \<Longrightarrow> distinct (packages_built (run s cs))"
proof -
  show "prefix (packages_built s) (packages_built (run s cs))"
    unfolding run_def
  proof (induction cs arbitrary: s)
    case Nil
    then show ?case by simp
  next
    case (Cons c cs)
    then show ?case
      using step_packages_built(1) [of s c] prefix_order.trans by fastforce
  qed
  show "distinct (packages_built s) \<Longrightarrow> distinct (packages_built (run s cs))"
    unfolding run_def
    by (induction cs arbitrary: s) (simp_all add: step_packages_built(2))
qed

text \<open>
  C7. In a session that starts from a new monitor, the list of built packages is
  duplicate-free at every moment. A check appends the newly completed packages of its
  chunk at the end of the list and removes nothing, so the list before any later
  sequence of calls is a prefix of the list after it. The newly completed packages of
  a chunk are distinct and none of them is in the list already: a package that is in
  the list is never reported again by a later chunk, though its marker comes again.
\<close>

theorem built_packages_only_grow:
  "distinct (packages_built (run (init_monitor pkgs maxd now) before))
   \<and> prefix (packages_built (run (init_monitor pkgs maxd now) before))
        (packages_built (run (run (init_monitor pkgs maxd now) before) later))
   \<and> packages_built (snd (check_build_status s t f)) =
        packages_built s @ (if timed_out s t then []
                            else fst (extract_package_completions s (fst (run_bash_output f))))
   \<and> st_packages_built (fst (check_build_status s t f)) = packages_built (snd (check_build_status s t f))
   \<and> distinct (fst (extract_package_completions s out))
   \<and> set (fst (extract_package_completions s out)) \<inter> set (packages_built s) = {}
   \<and> set (fst (extract_package_completions (run (run (init_monitor pkgs maxd now) before) later) out))
        \<inter> set (packages_built (run (init_monitor pkgs maxd now) before)) = {}"
proof -
  let ?r = "run (init_monitor pkgs maxd now) before"
  have "distinct (packages_built ?r)"
    by (rule run_packages_built(2)) (simp add: init_monitor_def)
  moreover have p: "prefix (packages_built ?r) (packages_built (run ?r later))"
    by (rule run_packages_built(1))
  moreover have "set (fst (extract_package_completions (run ?r later) out))
        \<inter> set (packages_built ?r) = {}"
    using extract_package_completions_appends(3) [of "run ?r later" out] set_mono_prefix [OF p]
    by blast
  ultimately show ?thesis
    using check_packages_built check_packages_snapshot extract_package_completions_appends(2,3)
    by blast
qed

definition chunk_http :: string where
  "chunk_http = ''Built target package_http''"

lemma chunk_http_facts:
  "run_bash_output (Ran 0 chunk_http []) = (chunk_http, [], False)"
  "fst (extract_package_completions (init_monitor None 3600 0) chunk_http) = [''http'']"
  "fst (extract_package_completions ((init_monitor None 3600 0)\<lparr>packages_built := [''http'']\<rparr>)
          chunk_http) = []"
  by code_simp+

theorem built_packages_only_grow_witness:
  "packages_built (snd (check_build_status (init_monitor None 3600 0) 1 (Ran 0 chunk_http [])))
     = [''http'']
   \<and> fst (extract_package_completions
          (run (init_monitor None 3600 0) [Check 1 (Ran 0 chunk_http []), NextWait]) chunk_http) = []
   \<and> packages_built (run (init_monitor None 3600 0)
          [Check 1 (Ran 0 chunk_http []), NextWait, Check 2 (Ran 0 chunk_http [])]) = [''http'']"
proof -
  let ?s0 = "init_monitor None 3600 0"
  let ?f = "Ran 0 chunk_http []"
  let ?s2 = "run ?s0 [Check 1 ?f, NextWait]"
  have nt: "\<not> timed_out ?s0 1" "\<not> timed_out ?s2 2"
    by (simp_all add: timed_out_def run_def)
  have b1: "packages_built (snd (check_build_status ?s0 1 ?f)) = [''http'']"
    using built_packages_only_grow [of None 3600 0 "[]" "[]" ?s0 1 ?f] nt(1)
    by (simp add: chunk_http_facts)
  then have b2: "packages_built ?s2 = [''http'']"
    by (simp add: run_def)
  have "fst (extract_package_completions ?s2 chunk_http)
      = fst (extract_package_completions (?s0\<lparr>packages_built := [''http'']\<rparr>) chunk_http)"
    by (rule extract_package_completions_cong) (simp_all add: b2, simp add: run_def)
  then have n2: "fst (extract_package_completions ?s2 chunk_http) = []"
    by (simp only: chunk_http_facts)
  have "packages_built (snd (check_build_status ?s2 2 ?f)) = [''http'']"
    using built_packages_only_grow [of None 3600 0 "[]" "[]" ?s2 2 ?f] nt(2) b2 n2
    by (simp add: chunk_http_facts(1))
  then have b3: "packages_built (run ?s0 [Check 1 ?f, NextWait, Check 2 ?f]) = [''http'']"
    by (simp add: run_def)
  show ?thesis using b1 n2 b3 by blast
qed

section \<open>The phase of a check\<close>

lemma check_state:
  assumes "\<not> timed_out s t" and "run_bash_output f = (out, err, c)"
  shows "state (snd (check_build_status s t f)) = update_build_state (snd (check_build_status s t f)) out c"
  using assms by (simp add: check_build_status_def analyse_state)

lemma check_state_snapshot:
  "st_state (fst (check_build_status s t f)) = state (snd (check_build_status s t f))"
  by (simp add: check_build_status_def snapshot_def)

lemma run_bash_output_completed:
  "run_bash_output f = (out, err, True) \<Longrightarrow> err = []"
  by (cases f) (auto simp: run_bash_output_def split: if_splits)

text \<open>
  C4, amended. When the process-completed flag is true, the derived phase is Completed
  if progress is at least 100 or the chunk has the final-target marker; otherwise it
  is Failed if and only if the list of recorded errors is not empty, critical or not;
  otherwise it is Completed. The progress and the errors are those after the chunk
  has been merged, as the returned status shows them.
\<close>

theorem completed_phase_derivation:
  assumes "\<not> timed_out s t" and "run_bash_output f = (out, err, True)"
  shows "st_state (fst (check_build_status s t f)) =
       (if contains ''built target driver'' (lower out)
           \<or> progress (fst (check_build_status s t f)) \<ge> 100 then COMPLETED
        else if st_errors (fst (check_build_status s t f)) \<noteq> [] then FAILED
        else COMPLETED)
   \<and> update_build_state m out True =
       (if contains ''built target driver'' (lower out) \<or> current_progress m \<ge> 100 then COMPLETED
        else if errors m \<noteq> [] then FAILED
        else COMPLETED)"
  using check_state [OF assms]
  by (simp add: check_state_snapshot check_progress_snapshot check_errors_snapshot
      update_build_state_def)

definition chunk_done :: string where
  "chunk_done = ''status:completed''"

definition chunk_done_warning :: string where
  "chunk_done_warning = ''status:completed packages/rest: warning: x''"

lemma extract_progress_empty_state:
  "extract_progress (init_monitor None 3600 0) chunk_done = 0"
  "extract_progress (init_monitor None 3600 0) chunk_done_warning = 0"
  by code_simp+

lemma chunk_done_facts:
  "run_bash_output (Ran 0 chunk_done []) = (chunk_done, [], True)"
  "\<not> contains ''built target driver'' (lower chunk_done)"
  "map strip (split_nl chunk_done) = [chunk_done]"
  "\<not> is_error chunk_done"
  "\<not> is_warning chunk_done"
  by code_simp+

lemma chunk_done_warning_facts:
  "run_bash_output (Ran 0 chunk_done_warning []) = (chunk_done_warning, [], True)"
  "\<not> contains ''built target driver'' (lower chunk_done_warning)"
  "map strip (split_nl chunk_done_warning) = [chunk_done_warning]"
  "chunk_done_warning \<noteq> []"
  "\<not> is_noise chunk_done_warning"
  "\<not> is_error chunk_done_warning"
  "is_warning chunk_done_warning"
  "is_package_related (init_monitor None 3600 0) chunk_done_warning"
  by code_simp+

theorem completed_phase_derivation_witness:
  "\<not> timed_out (init_monitor None 3600 0) 1
   \<and> run_bash_output (Ran 0 chunk_done []) = (chunk_done, [], True)
   \<and> st_errors (fst (check_build_status (init_monitor None 3600 0) 1 (Ran 0 chunk_done []))) = []
   \<and> st_state (fst (check_build_status (init_monitor None 3600 0) 1 (Ran 0 chunk_done []))) = COMPLETED"
proof -
  let ?s0 = "init_monitor None 3600 0"
  let ?st = "fst (check_build_status ?s0 1 (Ran 0 chunk_done []))"
  have nt: "\<not> timed_out ?s0 1"
    by (simp add: timed_out_def)
  note t = completed_phase_derivation [OF nt chunk_done_facts(1)]
  have e: "st_errors ?st = []"
    using nt
    by (simp add: check_errors_snapshot check_errors chunk_done_facts new_errors_eq
        retained_line_def)
  with t have "st_state ?st = COMPLETED"
    by simp
  with nt e show ?thesis by (simp add: chunk_done_facts(1))
qed

theorem noncritical_error_fails_completed_build:
  "\<not> timed_out (init_monitor None 3600 0) 1
   \<and> run_bash_output (Ran 0 chunk_done_warning []) = (chunk_done_warning, [], True)
   \<and> \<not> contains ''built target driver'' (lower chunk_done_warning)
   \<and> progress (fst (check_build_status (init_monitor None 3600 0) 1 (Ran 0 chunk_done_warning []))) = 0
   \<and> map critical (st_errors (fst (check_build_status (init_monitor None 3600 0) 1
        (Ran 0 chunk_done_warning [])))) = [False]
   \<and> st_state (fst (check_build_status (init_monitor None 3600 0) 1 (Ran 0 chunk_done_warning [])))
       = FAILED"
proof -
  let ?s0 = "init_monitor None 3600 0"
  let ?f = "Ran 0 chunk_done_warning []"
  let ?st = "fst (check_build_status ?s0 1 ?f)"
  have nt: "\<not> timed_out ?s0 1"
    by (simp add: timed_out_def)
  have p: "progress ?st = 0"
    using nt
    by (simp add: check_progress_snapshot check_current_progress chunk_done_warning_facts(1)
        extract_progress_empty_state)
  have e: "st_errors ?st = [error_of_line ?s0 chunk_done_warning]"
    using nt
    by (simp add: check_errors_snapshot check_errors chunk_done_warning_facts new_errors_eq
        retained_line_def)
  have "state (snd (check_build_status ?s0 1 ?f)) = FAILED"
    using check_state [OF nt chunk_done_warning_facts(1)] p e chunk_done_warning_facts(2)
    by (simp add: update_build_state_def check_progress_snapshot [symmetric]
        check_errors_snapshot [symmetric])
  with nt p e show ?thesis
    by (simp add: check_state_snapshot chunk_done_warning_facts error_of_line_def)
qed

section \<open>Errors of the fetch\<close>

lemma run_bash_output_error_text:
  "run_bash_output f = (out, err, c) \<Longrightarrow> err \<noteq> [] \<Longrightarrow> \<not> c"
  by (cases f) (auto simp: run_bash_output_def split: if_splits)

lemma check_warnings_snapshot:
  "st_warnings (fst (check_build_status s t f)) = warnings (snd (check_build_status s t f))"
  by (simp add: check_build_status_def snapshot_def)

lemma failed_without_completion:
  assumes "\<not> timed_out s t" and "run_bash_output f = (out, err, False)"
    and "list_ex critical (errors (snd (check_build_status s t f)))"
  shows "st_state (fst (check_build_status s t f)) = FAILED"
  using check_state [OF assms(1,2)] assms(3)
  by (simp add: check_state_snapshot update_build_state_def)

text \<open>
  C9, amended. The error text of a fetch is recorded only when it contains the text
  \<^verbatim>\<open>error\<close> in any letter case: then it is appended to the errors as a critical entry
  and the check returns the phase Failed. An error text without \<^verbatim>\<open>error\<close>, such as
  the one of a fetch that ran into its time limit, is not recorded at all: the errors
  grow by what signal extraction finds in the chunk only, and the warnings stay.
\<close>

theorem fetch_error_recording:
  assumes "\<not> timed_out s t" and "run_bash_output f = (out, err, c)"
  shows "(err \<noteq> [] \<and> contains ''error'' (lower err) \<longrightarrow>
        errors (snd (check_build_status s t f)) =
          errors s @ \<lparr> message = err, package_related = None, critical = True \<rparr>
            # fst (filter_errors_and_warnings (record_fetch_error s err) out)
        \<and> st_state (fst (check_build_status s t f)) = FAILED)
   \<and> (\<not> (err \<noteq> [] \<and> contains ''error'' (lower err)) \<longrightarrow>
        errors (snd (check_build_status s t f)) = errors s @ fst (filter_errors_and_warnings s out))
   \<and> warnings (snd (check_build_status s t f)) = warnings s"
proof -
  have e: "errors (snd (check_build_status s t f)) =
      errors (record_fetch_error s err) @ fst (filter_errors_and_warnings (record_fetch_error s err) out)"
    using assms by (simp add: check_errors)
  have rec: "errors (snd (check_build_status s t f)) =
          errors s @ \<lparr> message = err, package_related = None, critical = True \<rparr>
            # fst (filter_errors_and_warnings (record_fetch_error s err) out)
        \<and> st_state (fst (check_build_status s t f)) = FAILED"
    if h: "err \<noteq> []" "contains ''error'' (lower err)"
  proof -
    have a: "errors (snd (check_build_status s t f)) =
          errors s @ \<lparr> message = err, package_related = None, critical = True \<rparr>
            # fst (filter_errors_and_warnings (record_fetch_error s err) out)"
      using e h by (simp add: record_fetch_error_def)
    have "\<not> c"
      using run_bash_output_error_text [OF assms(2) h(1)] .
    moreover have "list_ex critical (errors (snd (check_build_status s t f)))"
      unfolding a by simp
    ultimately have "st_state (fst (check_build_status s t f)) = FAILED"
      using failed_without_completion [of s t f out err] assms by simp
    with a show ?thesis by simp
  qed
  have norec: "errors (snd (check_build_status s t f)) = errors s @ fst (filter_errors_and_warnings s out)"
    if "\<not> (err \<noteq> [] \<and> contains ''error'' (lower err))"
    using e that by (simp add: record_fetch_error_def)
  show ?thesis using rec norec check_warnings by blast
qed

theorem fetch_error_recording_witness:
  "\<not> timed_out (init_monitor None 3600 0) 1
   \<and> run_bash_output (OtherException ''x'') = ([], ''Error getting bash output: x'', False)
   \<and> contains ''error'' (lower ''Error getting bash output: x'')
   \<and> errors (snd (check_build_status (init_monitor None 3600 0) 1 (OtherException ''x''))) =
        [\<lparr> message = ''Error getting bash output: x'', package_related = None, critical = True \<rparr>]
   \<and> st_state (fst (check_build_status (init_monitor None 3600 0) 1 (OtherException ''x''))) = FAILED"
proof -
  let ?s0 = "init_monitor None 3600 0"
  have nt: "\<not> timed_out ?s0 1"
    by (simp add: timed_out_def)
  note t = fetch_error_recording [OF nt fetch_exception_x]
  have "fst (filter_errors_and_warnings s []) = []" for s
    by (simp add: new_errors_eq lines_empty retained_line_def del: split_nl.simps)
  with t fetch_exception_x_is_error nt show ?thesis
    by (simp add: fetch_exception_x)
qed

lemma fetch_timeout_facts:
  "run_bash_output TimeoutExpired = ([], ''Timeout getting bash output'', False)"
  "\<not> contains ''error'' (lower ''Timeout getting bash output'')"
  "extract_progress (init_monitor None 3600 0) [] = 0"
  "\<not> contains ''cmake'' (lower [])"
  by code_simp+

theorem fetch_timeout_not_recorded:
  "\<not> timed_out (init_monitor None 3600 0) 1
   \<and> run_bash_output TimeoutExpired = ([], ''Timeout getting bash output'', False)
   \<and> st_errors (fst (check_build_status (init_monitor None 3600 0) 1 TimeoutExpired)) = []
   \<and> st_warnings (fst (check_build_status (init_monitor None 3600 0) 1 TimeoutExpired)) = []
   \<and> st_state (fst (check_build_status (init_monitor None 3600 0) 1 TimeoutExpired)) = COMPILING_CORE"
proof -
  let ?s0 = "init_monitor None 3600 0"
  let ?s1 = "snd (check_build_status ?s0 1 TimeoutExpired)"
  have nt: "\<not> timed_out ?s0 1"
    by (simp add: timed_out_def)
  have e: "errors ?s1 = []"
    using nt
    by (simp add: check_errors fetch_timeout_facts record_fetch_error_def new_errors_eq
        lines_empty retained_line_def del: split_nl.simps)
  have w: "warnings ?s1 = []"
    by (simp add: check_warnings)
  have p: "current_progress ?s1 = 0"
    using nt by (simp add: check_current_progress fetch_timeout_facts)
  have "state ?s1 = COMPILING_CORE"
    using check_state [OF nt fetch_timeout_facts(1)] e p fetch_timeout_facts(4)
    by (simp add: update_build_state_def)
  with nt e w show ?thesis
    by (simp add: check_state_snapshot check_errors_snapshot check_warnings_snapshot
        fetch_timeout_facts(1))
qed

section \<open>Critical errors\<close>

text \<open>
  The entries of the errors list agree with the patterns: an entry whose message
  matches a critical-error pattern is marked critical. This holds of a new monitor
  and is kept by every call.
\<close>

definition critical_consistent :: "monitor \<Rightarrow> bool" where
  "critical_consistent s = list_all (\<lambda>e. is_error (message e) \<longrightarrow> critical e) (errors s)"

lemma critical_consistent_init: "critical_consistent (init_monitor pkgs maxd now)"
  by (simp add: critical_consistent_def)

lemma critical_consistent_check:
  assumes "critical_consistent s"
  shows "critical_consistent (snd (check_build_status s t f))"
proof -
  have new: "list_all (\<lambda>e. is_error (message e) \<longrightarrow> critical e) (fst (filter_errors_and_warnings m out))"
    for m out
    using new_errors_kind(1) [of _ m out] by (simp add: list_all_iff)
  have rec: "list_all (\<lambda>e. is_error (message e) \<longrightarrow> critical e) (errors (record_fetch_error s err))"
    for err
    using assms by (simp add: critical_consistent_def record_fetch_error_def)
  show ?thesis
    using assms new rec by (simp add: critical_consistent_def check_errors)
qed

lemma critical_consistent_step: "critical_consistent s \<Longrightarrow> critical_consistent (step s c)"
  by (cases c) (simp_all add: critical_consistent_check, simp add: critical_consistent_def)

lemma critical_consistent_run: "critical_consistent s \<Longrightarrow> critical_consistent (run s cs)"
  unfolding run_def by (induction cs arbitrary: s) (simp_all add: critical_consistent_step)

lemma has_critical_check:
  "list_ex critical (errors s) \<Longrightarrow> list_ex critical (errors (snd (check_build_status s t f)))"
  by (simp add: check_errors record_fetch_error_def)

lemma has_critical_step: "list_ex critical (errors s) \<Longrightarrow> list_ex critical (errors (step s c))"
  by (cases c) (simp_all add: has_critical_check)

lemma has_critical_run: "list_ex critical (errors s) \<Longrightarrow> list_ex critical (errors (run s cs))"
  unfolding run_def by (induction cs arbitrary: s) (simp_all add: has_critical_step)

lemma timed_out_run [simp]: "timed_out (run s cs) t = timed_out s t"
  unfolding run_def by (induction cs arbitrary: s) simp_all

lemma is_error_nonempty: "is_error line \<Longrightarrow> line \<noteq> []"
  by (auto simp: is_error_def critical_error_patterns_def)

lemma critical_line_recorded:
  assumes "critical_consistent s" and "\<not> timed_out s t" and "run_bash_output f = (out, err, c)"
    and "raw \<in> set (split_nl out)" and "is_error (strip raw)" and "\<not> is_noise (strip raw)"
  shows "list_ex critical (errors (snd (check_build_status s t f)))"
proof -
  let ?s' = "snd (check_build_status s t f)"
  have e: "errors ?s' = errors (record_fetch_error s err)
      @ fst (filter_errors_and_warnings (record_fetch_error s err) out)"
    using assms(2,3) by (simp add: check_errors)
  have "strip raw \<in> set (map message (errors ?s'))"
    unfolding e
    using retained_in_errors [OF assms(4) is_error_nonempty [OF assms(5)] assms(6),
        of "record_fetch_error s err"] assms(5)
    by blast
  then obtain e where m: "e \<in> set (errors ?s')" "message e = strip raw"
    by auto
  have "critical_consistent ?s'"
    using assms(1) by (rule critical_consistent_check)
  with m assms(5) have "critical e"
    by (simp add: critical_consistent_def list_all_iff)
  with m(1) show ?thesis
    by (auto simp: list_ex_iff)
qed

lemma phase_with_critical_error:
  assumes "list_ex critical (errors s)"
  shows "st_state (fst (check_build_status s t f)) =
       (if timed_out s t then TIMEOUT
        else if snd (snd (run_bash_output f))
                \<and> (contains ''built target driver'' (lower (fst (run_bash_output f)))
                    \<or> progress (fst (check_build_status s t f)) \<ge> 100) then COMPLETED
        else FAILED)"
proof (cases "timed_out s t")
  case True
  then show ?thesis by (simp add: check_timed_out snapshot_def)
next
  case False
  obtain out err c where r: "run_bash_output f = (out, err, c)"
    by (cases "run_bash_output f")
  have "list_ex critical (errors (snd (check_build_status s t f)))"
    using assms by (rule has_critical_check)
  moreover from this have "errors (snd (check_build_status s t f)) \<noteq> []"
    by auto
  ultimately show ?thesis
    using check_state [OF False r] False r
    by (simp add: check_state_snapshot check_progress_snapshot update_build_state_def)
qed

text \<open>
  C3, amended. In a session started from a new monitor, let a check that is not timed
  out and whose completed flag is false receive a chunk with a line whose trimmed text
  matches a critical-error pattern and no noise pattern. The check returns the phase
  Failed. Every later check of the session returns TimedOut when it is made after the
  maximum duration, Completed when its completed flag is set and its progress is at
  least 100 or its chunk has the final-target marker, and Failed otherwise.
\<close>

theorem critical_error_forces_failed:
  assumes "s = run (init_monitor pkgs maxd now) before"
    and "\<not> timed_out s t" and "run_bash_output f = (out, err, False)"
    and "raw \<in> set (split_nl out)" and "is_error (strip raw)" and "\<not> is_noise (strip raw)"
  shows "st_state (fst (check_build_status s t f)) = FAILED
   \<and> st_state (fst (check_build_status (run (snd (check_build_status s t f)) later) t' f')) =
       (if timed_out s t' then TIMEOUT
        else if snd (snd (run_bash_output f'))
                \<and> (contains ''built target driver'' (lower (fst (run_bash_output f')))
                    \<or> progress (fst (check_build_status
                          (run (snd (check_build_status s t f)) later) t' f')) \<ge> 100)
          then COMPLETED
        else FAILED)"
proof -
  let ?s' = "snd (check_build_status s t f)"
  have "critical_consistent s"
    unfolding assms(1) by (rule critical_consistent_run) (rule critical_consistent_init)
  then have c: "list_ex critical (errors ?s')"
    using assms(2-6) by (rule critical_line_recorded)
  have first: "st_state (fst (check_build_status s t f)) = FAILED"
    using assms(2,3) c by (rule failed_without_completion)
  have "list_ex critical (errors (run ?s' later))"
    using c by (rule has_critical_run)
  from phase_with_critical_error [OF this, of t' f']
  have "st_state (fst (check_build_status (run ?s' later) t' f')) =
       (if timed_out (run ?s' later) t' then TIMEOUT
        else if snd (snd (run_bash_output f'))
                \<and> (contains ''built target driver'' (lower (fst (run_bash_output f')))
                    \<or> progress (fst (check_build_status (run ?s' later) t' f')) \<ge> 100)
          then COMPLETED
        else FAILED)" .
  then show ?thesis using first by simp
qed

definition chunk_error :: string where
  "chunk_error = ''error: x''"

lemma chunk_error_facts:
  "run_bash_output (Ran 0 chunk_error []) = (chunk_error, [], False)"
  "split_nl chunk_error = [chunk_error]"
  "strip chunk_error = chunk_error"
  "is_error chunk_error"
  "\<not> is_noise chunk_error"
  by code_simp+

theorem critical_error_forces_failed_witness:
  "\<not> timed_out (init_monitor None 3600 0) 1
   \<and> run_bash_output (Ran 0 chunk_error []) = (chunk_error, [], False)
   \<and> chunk_error \<in> set (split_nl chunk_error)
   \<and> is_error (strip chunk_error) \<and> \<not> is_noise (strip chunk_error)
   \<and> st_state (fst (check_build_status (init_monitor None 3600 0) 1 (Ran 0 chunk_error []))) = FAILED
   \<and> st_state (fst (check_build_status
        (run (snd (check_build_status (init_monitor None 3600 0) 1 (Ran 0 chunk_error []))) [NextWait])
        2 TimeoutExpired)) = FAILED"
proof -
  let ?s0 = "init_monitor None 3600 0"
  have s: "?s0 = run (init_monitor None 3600 0) []"
    by (simp add: run_def)
  have nt: "\<not> timed_out ?s0 1" "\<not> timed_out ?s0 2"
    by (simp_all add: timed_out_def)
  have mem: "chunk_error \<in> set (split_nl chunk_error)"
    by (simp add: chunk_error_facts(2))
  have e: "is_error (strip chunk_error)" and n: "\<not> is_noise (strip chunk_error)"
    by (simp_all add: chunk_error_facts)
  note t = critical_error_forces_failed [OF s nt(1) chunk_error_facts(1) mem e n,
      of "[NextWait]" 2 TimeoutExpired]
  have "\<not> snd (snd (run_bash_output TimeoutExpired))"
    by (simp add: fetch_timeout_facts(1))
  with t nt(2) have "st_state (fst (check_build_status ?s0 1 (Ran 0 chunk_error []))) = FAILED"
    "st_state (fst (check_build_status
        (run (snd (check_build_status ?s0 1 (Ran 0 chunk_error []))) [NextWait])
        2 TimeoutExpired)) = FAILED"
    by simp_all
  with nt(1) mem e n show ?thesis
    by (simp only: chunk_error_facts(1) simp_thms)
qed

definition chunk_noise_error :: string where
  "chunk_noise_error = ''warning: crypt error: x''"

lemma chunk_noise_error_facts:
  "run_bash_output (Ran 0 chunk_noise_error []) = (chunk_noise_error, [], False)"
  "split_nl chunk_noise_error = [chunk_noise_error]"
  "strip chunk_noise_error = chunk_noise_error"
  "is_error chunk_noise_error"
  "is_noise chunk_noise_error"
  "extract_progress (init_monitor None 3600 0) chunk_noise_error = 0"
  "\<not> contains ''cmake'' (lower chunk_noise_error)"
  by code_simp+

theorem noise_hides_critical_error:
  "\<not> timed_out (init_monitor None 3600 0) 1
   \<and> run_bash_output (Ran 0 chunk_noise_error []) = (chunk_noise_error, [], False)
   \<and> chunk_noise_error \<in> set (split_nl chunk_noise_error)
   \<and> is_error (strip chunk_noise_error)
   \<and> st_errors (fst (check_build_status (init_monitor None 3600 0) 1 (Ran 0 chunk_noise_error []))) = []
   \<and> st_state (fst (check_build_status (init_monitor None 3600 0) 1 (Ran 0 chunk_noise_error [])))
       = COMPILING_CORE"
proof -
  let ?s0 = "init_monitor None 3600 0"
  let ?s1 = "snd (check_build_status ?s0 1 (Ran 0 chunk_noise_error []))"
  have nt: "\<not> timed_out ?s0 1"
    by (simp add: timed_out_def)
  have mem: "chunk_noise_error \<in> set (split_nl chunk_noise_error)"
    by (simp add: chunk_noise_error_facts(2))
  have e: "errors ?s1 = []"
    using nt
    by (simp add: check_errors chunk_noise_error_facts new_errors_eq retained_line_def)
  have p: "current_progress ?s1 = 0"
    using nt by (simp add: check_current_progress chunk_noise_error_facts)
  have "state ?s1 = COMPILING_CORE"
    using check_state [OF nt chunk_noise_error_facts(1)] e p chunk_noise_error_facts(7)
    by (simp add: update_build_state_def)
  then have st: "st_state (fst (check_build_status ?s0 1 (Ran 0 chunk_noise_error []))) = COMPILING_CORE"
    by (simp add: check_state_snapshot)
  have se: "st_errors (fst (check_build_status ?s0 1 (Ran 0 chunk_noise_error []))) = []"
    using e by (simp add: check_errors_snapshot)
  have ie: "is_error (strip chunk_noise_error)"
    by (simp add: chunk_noise_error_facts)
  from nt mem ie se st show ?thesis
    by (simp only: chunk_noise_error_facts(1) simp_thms)
qed

end
